theory Spec2Isabelle
  imports Main "HOL-Library.AList" "HOL-Library.Char_ord" "HOL-Library.List_Lexorder"
    "HOL-Library.Multiset" "HOL-Library.Word"
begin

section \<open>Python values\<close>

text \<open>
  The attribute values of a block are the values a Terraform parser yields: None,
  booleans, integers, strings, lists and dicts. A dict is an association list in
  insertion order (the order Python iterates in); its keys are strings or, where
  \<open>update_inner_attribute\<close> indexes with a numeric path component, non-negative
  integers. Floats are left out. Strings are byte strings (ASCII text).

  Values are trees: the objects below a top-level attribute mapping are modelled by
  value, so two references to one nested object are two equal trees. The one object
  that is modelled by reference is the attribute mapping handed to the constructor
  (section Store), because the block keeps that very object.
\<close>

datatype key = KStr string | KInt nat

datatype pyval =
    PNone
  | PBool bool
  | PInt int
  | PStr string
  | PList "pyval list"
  | PDict "(key \<times> pyval) list"

type_synonym pydict = "(key \<times> pyval) list"

datatype pyerror = KeyError | IndexError | TypeError | AttributeError

text \<open>Truthiness, as \<open>if x:\<close> tests it.\<close>

fun truthy :: "pyval \<Rightarrow> bool" where
  "truthy PNone = False"
| "truthy (PBool b) = b"
| "truthy (PInt i) = (i \<noteq> 0)"
| "truthy (PStr s) = (s \<noteq> [])"
| "truthy (PList xs) = (xs \<noteq> [])"
| "truthy (PDict d) = (d \<noteq> [])"

text \<open>\<open>d.get(k)\<close> on a dict: the value, or None when the key is missing.\<close>

definition dict_get :: "pydict \<Rightarrow> key \<Rightarrow> pyval" where
  "dict_get d k = (case map_of d k of None \<Rightarrow> PNone | Some v \<Rightarrow> v)"

text \<open>\<open>d[k] = v\<close>: an existing key keeps its position, a new key goes last.\<close>

definition dict_set :: "pydict \<Rightarrow> key \<Rightarrow> pyval \<Rightarrow> pydict" where
  "dict_set d k v = AList.update k v d"

text \<open>\<open>del d[k]\<close> for a key that is present.\<close>

definition dict_del :: "pydict \<Rightarrow> key \<Rightarrow> pydict" where
  "dict_del d k = AList.delete k d"

text \<open>\<open>d.update(e)\<close>: the entries of \<open>e\<close> are stored into \<open>d\<close> in order.\<close>

fun dict_update :: "pydict \<Rightarrow> pydict \<Rightarrow> pydict" where
  "dict_update d [] = d"
| "dict_update d ((k, v) # e) = dict_update (dict_set d k v) e"

subsection \<open>Strings\<close>

text \<open>\<open>s.split('.')\<close>: always at least one component.\<close>

fun split_dot :: "string \<Rightarrow> string list" where
  "split_dot [] = [[]]"
| "split_dot (c # cs) =
     (if c = CHR ''.'' then [] # split_dot cs
      else (case split_dot cs of [] \<Rightarrow> [[c]] | p # ps \<Rightarrow> (c # p) # ps))"

text \<open>\<open>'.'.join(xs)\<close>.\<close>

fun join_dot :: "string list \<Rightarrow> string" where
  "join_dot [] = []"
| "join_dot [x] = x"
| "join_dot (x # y # ys) = x @ CHR ''.'' # join_dot (y # ys)"

definition digits :: string where
  "digits = ''0123456789''"

definition is_digit :: "char \<Rightarrow> bool" where
  "is_digit c = (c \<in> set digits)"

text \<open>\<open>s.isnumeric()\<close> on ASCII text: non-empty and all decimal digits.\<close>

definition isnumeric :: "string \<Rightarrow> bool" where
  "isnumeric s = (s \<noteq> [] \<and> list_all is_digit s)"

text \<open>The value of a digit is its position in \<open>digits\<close>.\<close>

definition digit_val :: "char \<Rightarrow> nat" where
  "digit_val c = length (takeWhile (\<lambda>x. x \<noteq> c) digits)"

text \<open>\<open>int(s)\<close> for a string of decimal digits.\<close>

definition int_of_str :: "string \<Rightarrow> nat" where
  "int_of_str s = foldl (\<lambda>acc c. 10 * acc + digit_val c) 0 s"

definition digit_char :: "nat \<Rightarrow> char" where
  "digit_char d = digits ! (d mod 10)"

text \<open>\<open>str(n)\<close> for a non-negative integer, as an f-string renders it.\<close>

function str_of_nat :: "nat \<Rightarrow> string" where
  "str_of_nat n = (if n < 10 then [digit_char n] else str_of_nat (n div 10) @ [digit_char (n mod 10)])"
  by pat_completeness auto
termination
  by (relation "measure id") auto

declare str_of_nat.simps [simp del]

text \<open>\<open>f'{key}'\<close> for a dict key or a list index.\<close>

fun str_of_key :: "key \<Rightarrow> string" where
  "str_of_key (KStr s) = s"
| "str_of_key (KInt n) = str_of_nat n"

subsection \<open>Subscripting\<close>

text \<open>\<open>x[k]\<close>: a dict by key, a list or a string by index; anything else raises.\<close>

fun getitem :: "pyval \<Rightarrow> key \<Rightarrow> pyerror + pyval" where
  "getitem (PDict d) k = (case map_of d k of None \<Rightarrow> Inl KeyError | Some v \<Rightarrow> Inr v)"
| "getitem (PList xs) (KInt i) = (if i < length xs then Inr (xs ! i) else Inl IndexError)"
| "getitem (PList xs) (KStr s) = Inl TypeError"
| "getitem (PStr s) (KInt i) = (if i < length s then Inr (PStr [s ! i]) else Inl IndexError)"
| "getitem (PStr s) (KStr t) = Inl TypeError"
| "getitem PNone k = Inl TypeError"
| "getitem (PBool b) k = Inl TypeError"
| "getitem (PInt n) k = Inl TypeError"

text \<open>\<open>x[k] = v\<close>: the container after the assignment, or the exception.\<close>

fun setitem :: "pyval \<Rightarrow> key \<Rightarrow> pyval \<Rightarrow> pyerror + pyval" where
  "setitem (PDict d) k v = Inr (PDict (dict_set d k v))"
| "setitem (PList xs) (KInt i) v = (if i < length xs then Inr (PList (xs[i := v])) else Inl IndexError)"
| "setitem (PList xs) (KStr s) v = Inl TypeError"
| "setitem (PStr s) k v = Inl TypeError"
| "setitem PNone k v = Inl TypeError"
| "setitem (PBool b) k v = Inl TypeError"
| "setitem (PInt n) k v = Inl TypeError"

section \<open>AttributeTree: get_inner_attributes\<close>

text \<open>
  \<open>get_inner_attributes(attribute_key, attribute_value)\<close> (blocks.py, lines 204-219).
  A list of length one is replaced by its element; a dict or list gets an entry of its
  own, first an empty dict or a list of None, which the loop fills child by child from
  the entry the recursive call made for that child; any other value is the single
  entry. The loop over a dict runs over its entries in order (for a dict,
  \<open>attribute_value[key]\<close> is the value stored with \<open>key\<close>). Each subscript of the
  source is a \<open>getitem\<close> or \<open>setitem\<close> here, with its exception as a branch.
\<close>

definition inner_key :: "key \<Rightarrow> key \<Rightarrow> key" where
  "inner_key attribute_key k = KStr (str_of_key attribute_key @ ''.'' @ str_of_key k)"

text \<open>One round of the loop body after the recursive call returned \<open>sub\<close>.\<close>

definition store_child :: "pydict \<Rightarrow> key \<Rightarrow> key \<Rightarrow> pydict \<Rightarrow> pyerror + pydict" where
  "store_child inner_attributes attribute_key k sub =
     (let acc = dict_update inner_attributes sub in
      case getitem (PDict acc) (inner_key attribute_key k) of
        Inl e \<Rightarrow> Inl e
      | Inr child \<Rightarrow>
          (case getitem (PDict acc) attribute_key of
             Inl e \<Rightarrow> Inl e
           | Inr container \<Rightarrow>
               (case setitem container k child of
                  Inl e \<Rightarrow> Inl e
                | Inr container' \<Rightarrow> Inr (dict_set acc attribute_key container'))))"

fun get_inner_attributes :: "key \<Rightarrow> pyval \<Rightarrow> pyerror + pydict"
  and inner_body :: "key \<Rightarrow> pyval \<Rightarrow> pyerror + pydict"
  and inner_list :: "key \<Rightarrow> pyval list \<Rightarrow> nat \<Rightarrow> pydict \<Rightarrow> pyerror + pydict"
  and inner_dict :: "key \<Rightarrow> (key \<times> pyval) list \<Rightarrow> pydict \<Rightarrow> pyerror + pydict"
where
  "get_inner_attributes attribute_key (PList [x]) = inner_body attribute_key x"
| "get_inner_attributes attribute_key v = inner_body attribute_key v"
| "inner_body attribute_key (PList xs) =
     inner_list attribute_key xs 0 [(attribute_key, PList (replicate (length xs) PNone))]"
| "inner_body attribute_key (PDict d) =
     inner_dict attribute_key d [(attribute_key, PDict [])]"
| "inner_body attribute_key v = Inr [(attribute_key, v)]"
| "inner_list attribute_key [] i acc = Inr acc"
| "inner_list attribute_key (x # xs) i acc =
     (case get_inner_attributes (inner_key attribute_key (KInt i)) x of
        Inl e \<Rightarrow> Inl e
      | Inr sub \<Rightarrow>
          (case store_child acc attribute_key (KInt i) sub of
             Inl e \<Rightarrow> Inl e
           | Inr acc' \<Rightarrow> inner_list attribute_key xs (Suc i) acc'))"
| "inner_dict attribute_key [] acc = Inr acc"
| "inner_dict attribute_key ((k, x) # d) acc =
     (case get_inner_attributes (inner_key attribute_key k) x of
        Inl e \<Rightarrow> Inl e
      | Inr sub \<Rightarrow>
          (case store_child acc attribute_key k sub of
             Inl e \<Rightarrow> Inl e
           | Inr acc' \<Rightarrow> inner_dict attribute_key d acc'))"

section \<open>Store, environment and the Block\<close>

text \<open>
  The attribute mapping a caller hands to the constructor lives in a store, at an
  address; \<open>self.attributes = attributes\<close> keeps the address, so the caller and the
  block share the object. \<open>deepcopy(config)\<close> reads the caller's config out of the
  store into a value of the block's own.
\<close>

type_synonym addr = nat

type_synonym store = "addr \<Rightarrow> pydict"

text \<open>Modelled from the spec: the enum \<open>BlockType\<close> (block_types.py is not among the
  sources); the construct kinds are the ones the spec lists.\<close>

datatype BlockType = RESOURCE | MODULE | VARIABLE | OUTPUT | PROVIDER | LOCALS

text \<open>
  What the sources import and do not contain is a parameter: the constants of
  \<open>CustomAttributes\<close> and \<open>RESOLVED_MODULE_ENTRY_NAME\<close>, the \<open>value\<close> and the
  \<open>str\<close> of a \<open>BlockType\<close>, \<open>remove_module_dependency_in_path\<close>,
  \<open>os.path.realpath\<close>, \<open>calculate_hash\<close> and \<open>encode_graph_property_value\<close>.
\<close>

record env =
  RESOLVED_MODULE_ENTRY_NAME :: string
  BLOCK_NAME :: string
  BLOCK_TYPE :: string
  FILE_PATH :: string
  CONFIG :: string
  LABEL :: string
  ID :: string
  SOURCE :: string
  RENDERING_BREADCRUMBS :: string
  HASH :: string
  block_type_value :: "BlockType \<Rightarrow> string"
  block_type_str :: "BlockType \<Rightarrow> string"
  remove_module_dependency_in_path :: "string \<Rightarrow> string \<times> string \<times> string"
  realpath :: "string \<Rightarrow> string"
  calculate_hash :: "pydict \<Rightarrow> pyval"
  encode_graph_property_value :: "pyval \<Rightarrow> pyval"

record Block =
  name :: string
  config :: pydict
  module_dependency :: string
  module_dependency_num :: string
  path :: string
  block_type :: BlockType
  attributes :: addr
  ident :: string
  source :: string
  changed_attributes :: "(string \<times> string list) list"
  breadcrumbs :: "(string \<times> pyval) list"
  module_connections :: "(string \<times> nat list) list"
  source_module :: "string set"
  encode :: bool





section \<open>Cross-kind lookup: find_attribute\<close>

text \<open>\<open>Block.find_attribute\<close> (lines 163-187); \<open>attribute\<close> is the list of candidate
  components, the result None is Python's None.\<close>

definition find_attribute :: "store \<Rightarrow> Block \<Rightarrow> string list \<Rightarrow> string option" where
  "find_attribute st b attribute =
     (let attrs = st (attributes b) in
      if attribute = [] then None
      else if truthy (dict_get attrs (KStr (attribute ! 0))) then Some (attribute ! 0)
      else if block_type b = VARIABLE then
        (if truthy (dict_get attrs (KStr ''default'')) then Some ''default'' else None)
      else if block_type b = OUTPUT then
        (if truthy (dict_get attrs (KStr ''value'')) then Some ''value'' else None)
      else if block_type b = RESOURCE \<and> length attribute > 1 then
        (if name b = attribute ! 0 \<and> truthy (dict_get attrs (KStr (attribute ! 1)))
         then Some (attribute ! 1) else None)
      else None)"

section \<open>The membership operator\<close>

text \<open>Python's \<open>==\<close> on the modelled values: True and False equal 1 and 0, lists are
  equal element by element, dicts when they hold the same keys with equal values.\<close>

fun py_eq :: "pyval \<Rightarrow> pyval \<Rightarrow> bool" where
  "py_eq PNone w = (w = PNone)"
| "py_eq (PBool a) w =
     (case w of PBool b \<Rightarrow> a = b | PInt i \<Rightarrow> (if a then 1 else 0) = i | _ \<Rightarrow> False)"
| "py_eq (PInt i) w =
     (case w of PBool b \<Rightarrow> i = (if b then 1 else 0) | PInt j \<Rightarrow> i = j | _ \<Rightarrow> False)"
| "py_eq (PStr s) w = (w = PStr s)"
| "py_eq (PList xs) w = (case w of PList ys \<Rightarrow> list_all2 py_eq xs ys | _ \<Rightarrow> False)"
| "py_eq (PDict d) w =
     (case w of
        PDict e \<Rightarrow>
          length d = length e \<and>
          list_all (\<lambda>p. case map_of e (fst p) of None \<Rightarrow> False | Some y \<Rightarrow> py_eq (snd p) y) d
      | _ \<Rightarrow> False)"

text \<open>\<open>x in xs\<close> for a list \<open>xs\<close>.\<close>

definition py_in :: "pyval \<Rightarrow> pyval list \<Rightarrow> bool" where
  "py_in x xs = list_ex (py_eq x) xs"

text \<open>
  \<open>WithinAttributeSolver\<close> (within_attribute_solver.py). The comparison value is a
  list, as a check document gives it; \<open>vertex\<close> is the exported flat mapping.
\<close>

record WithinAttributeSolver =
  resource_types :: "string list"
  solver_attribute :: string
  solver_value :: "pyval list"

definition get_operation :: "WithinAttributeSolver \<Rightarrow> pydict \<Rightarrow> string \<Rightarrow> bool" where
  "get_operation self vertex attribute = py_in (dict_get vertex (KStr attribute)) (solver_value self)"

section \<open>Deep-path mutation\<close>

text \<open>
  \<open>Block.update_inner_attribute\<close> (lines 135-156) rewrites \<open>nested_attributes\<close> in
  place and either returns None, returns the exception it caught and logged, or ends
  with an exception. The model returns the container after the call, that outcome,
  and the warnings logged (attribute key and exception), also when the call raises:
  what was written before the exception stays written.
\<close>

datatype outcome = Returned "pyerror option" | Raised pyerror

type_synonym log = "(string \<times> pyerror) list"

text \<open>Lines 137-139: a numeric component becomes an integer.\<close>

definition key_of_part :: "string \<Rightarrow> key" where
  "key_of_part curr_part = (if isnumeric curr_part then KInt (int_of_str curr_part) else KStr curr_part)"

text \<open>Lines 140-141: a dict that holds the whole key with a truthy value gets the
  new value there.\<close>

fun write_if_present :: "string \<Rightarrow> pyval \<Rightarrow> pyval \<Rightarrow> pyval" where
  "write_if_present attribute_key (PDict d) v =
     (if truthy (dict_get d (KStr attribute_key)) then PDict (dict_set d (KStr attribute_key) v)
      else PDict d)"
| "write_if_present attribute_key nested v = nested"

text \<open>Lines 151-156, the handler of the exception \<open>e\<close>. \<open>.get\<close> exists on a dict
  only: on any other container the handler itself raises AttributeError.\<close>

fun except_handler :: "string \<Rightarrow> pyval \<Rightarrow> pyval \<Rightarrow> pyerror \<Rightarrow> log \<Rightarrow> pyval \<times> outcome \<times> log" where
  "except_handler attribute_key (PDict d) v e lg =
     (if dict_get d (KStr attribute_key) \<noteq> PNone
      then (PDict (dict_set d (KStr attribute_key) v), Returned None, lg)
      else (PDict d, Returned (Some e), lg @ [(attribute_key, e)]))"
| "except_handler attribute_key nested v e lg = (nested, Raised AttributeError, lg)"

text \<open>The child \<open>nested_attributes[curr_key]\<close> is rewritten in place: the container
  holds the rewritten child where it held the child. A character read out of a string
  is a new object, the string stays as it is.\<close>

fun put_child :: "pyval \<Rightarrow> key \<Rightarrow> pyval \<Rightarrow> pyval" where
  "put_child (PDict d) k child = PDict (dict_set d k child)"
| "put_child (PList xs) (KInt i) child = PList (xs[i := child])"
| "put_child nested k child = nested"

text \<open>
  The recursion runs on the components of the key: \<open>curr_part\<close> is \<open>split_key[0]\<close> and
  \<open>rest\<close> is \<open>split_key[1:]\<close>, so that \<open>attribute_key\<close> is their join. The source
  passes \<open>'.'.join(split_key[1:])\<close> down and splits it again, which gives \<open>rest\<close>
  back (lemma \<open>split_dot_join_dot\<close>); the broadcast over a list passes \<open>curr_key\<close>
  alone. \<open>update_elements\<close> is the \<open>for inner in nested_attributes\<close> loop.
\<close>

function update_inner_parts :: "string \<Rightarrow> string list \<Rightarrow> pyval \<Rightarrow> pyval \<Rightarrow> pyval \<times> outcome \<times> log"
  and update_elements :: "string \<Rightarrow> pyval list \<Rightarrow> pyval \<Rightarrow> pyval list \<times> outcome \<times> log"
where
  "update_inner_parts curr_part rest nested v =
     (let attribute_key = join_dot (curr_part # rest);
          curr_key = key_of_part curr_part;
          nested1 = write_if_present attribute_key nested v
      in case (nested, curr_key) of
           (PList xs, KStr s) \<Rightarrow>
             (case update_elements curr_part xs v of
                (xs', Raised e, lg) \<Rightarrow> (PList xs', Raised e, lg)
              | (xs', Returned r, lg) \<Rightarrow> (PList xs', Returned None, lg))
         | _ \<Rightarrow>
             (case rest of
                [] \<Rightarrow>
                  (case setitem nested1 curr_key v of
                     Inl e \<Rightarrow> (nested1, Raised e, [])
                   | Inr nested2 \<Rightarrow> (nested2, Returned None, []))
              | r # rs \<Rightarrow>
                  (case getitem nested1 curr_key of
                     Inl e \<Rightarrow> except_handler attribute_key nested1 v e []
                   | Inr child \<Rightarrow>
                       (case update_inner_parts r rs child v of
                          (child', Raised e, lg) \<Rightarrow>
                            except_handler attribute_key (put_child nested1 curr_key child') v e lg
                        | (child', Returned x, lg) \<Rightarrow>
                            (put_child nested1 curr_key child', Returned None, lg)))))"
| "update_elements curr_part [] v = ([], Returned None, [])"
| "update_elements curr_part (inner # xs) v =
     (case update_inner_parts curr_part [] inner v of
        (inner', Raised e, lg) \<Rightarrow> (inner' # xs, Raised e, lg)
      | (inner', Returned r, lg) \<Rightarrow>
          (case update_elements curr_part xs v of
             (xs', oc, lg') \<Rightarrow> (inner' # xs', oc, lg @ lg')))"
  by pat_completeness auto
termination
  by (relation "inv_image (less_than <*lex*> less_than)
        (\<lambda>x. case x of
           Inl (curr_part, rest, nested, v) \<Rightarrow> (length rest, size nested)
         | Inr (curr_part, xs, v) \<Rightarrow> (0, size_list size xs))")
     auto

declare update_inner_parts.simps [simp del]

definition update_inner_attribute :: "string \<Rightarrow> pyval \<Rightarrow> pyval \<Rightarrow> pyval \<times> outcome \<times> log" where
  "update_inner_attribute attribute_key nested_attributes value_to_update =
     (let split_key = split_dot attribute_key
      in update_inner_parts (hd split_key) (tl split_key) nested_attributes value_to_update)"

text \<open>Modelled from the spec: the helper \<open>join_trimmed_strings\<close> (checks/utils/utils.py
  is not among the sources); with it the loop of \<open>update_attribute\<close> visits the path
  and every prefix of it, so it joins all but the last \<open>num_to_trim\<close> components.\<close>

definition join_trimmed_strings :: "string list \<Rightarrow> nat \<Rightarrow> string" where
  "join_trimmed_strings str_lst num_to_trim = join_dot (take (length str_lst - num_to_trim) str_lst)"

text \<open>Lines 128-133: the loop over \<open>range(len(attribute_key_parts))\<close>; its state is
  the attribute mapping, \<open>attribute_value\<close> and \<open>changed_attributes\<close>.\<close>

fun sync_loop ::
  "string list \<Rightarrow> string list \<Rightarrow> nat list \<Rightarrow> pydict \<times> pyval \<times> (string \<times> string list) list
   \<Rightarrow> pydict \<times> pyval \<times> (string \<times> string list) list" where
  "sync_loop parts crumbs [] s = s"
| "sync_loop parts crumbs (i # js) (attrs, attribute_value, changed) =
     (let k = join_trimmed_strings parts i in
      if CHR ''.'' \<in> set k then
        sync_loop parts crumbs js
          (dict_set attrs (KStr k) attribute_value,
           PDict [(KStr (parts ! (length parts - 1 - i)), attribute_value)],
           AList.update k crumbs changed)
      else sync_loop parts crumbs js (attrs, attribute_value, changed))"

text \<open>
  \<open>Block.update_attribute\<close> (lines 119-133). The result is the store and the block
  after the call, the caller's breadcrumb list after the call (the call appends to
  it), the outcome and the warnings logged. The list stored in \<open>changed_attributes\<close>
  is that breadcrumb list, taken by value.
\<close>

definition update_attribute ::
  "store \<Rightarrow> Block \<Rightarrow> string \<Rightarrow> pyval \<Rightarrow> string \<Rightarrow> string list
   \<Rightarrow> store \<times> Block \<times> string list \<times> outcome \<times> log" where
  "update_attribute st b attribute_key attribute_value change_origin_id previous_breadcrumbs =
     (let crumbs = (if previous_breadcrumbs = [] \<or> last previous_breadcrumbs \<noteq> change_origin_id
                    then previous_breadcrumbs @ [change_origin_id] else previous_breadcrumbs)
      in case update_inner_attribute attribute_key (PDict (st (attributes b))) attribute_value of
           (nested', oc, lg) \<Rightarrow>
             (let attrs' = (case nested' of PDict d \<Rightarrow> d | _ \<Rightarrow> st (attributes b))
              in case oc of
                   Raised e \<Rightarrow> (st(attributes b := attrs'), b, crumbs, Raised e, lg)
                 | Returned r \<Rightarrow>
                     (let attribute_key_parts = split_dot attribute_key in
                      if length attribute_key_parts = 1 then
                        (st(attributes b := attrs'),
                         b\<lparr>changed_attributes :=
                             AList.update attribute_key crumbs (changed_attributes b)\<rparr>,
                         crumbs, Returned None, lg)
                      else
                        (case sync_loop attribute_key_parts crumbs [0..<length attribute_key_parts]
                                (attrs', attribute_value, changed_attributes b) of
                           (attrs'', value', changed') \<Rightarrow>
                             (st(attributes b := attrs''), b\<lparr>changed_attributes := changed'\<rparr>,
                              crumbs, Returned None, lg)))))"

section \<open>Export and fingerprint\<close>

text \<open>Lines 97-98 (and 206-207): a list of length one stands for its element.\<close>

fun unwrap_single :: "pyval \<Rightarrow> pyval" where
  "unwrap_single (PList [x]) = x"
| "unwrap_single v = v"

fun is_dict_or_list :: "pyval \<Rightarrow> bool" where
  "is_dict_or_list (PDict d) = True"
| "is_dict_or_list (PList xs) = True"
| "is_dict_or_list v = False"

text \<open>\<open>get_base_attributes\<close> (lines 192-201): a dict display, entry by entry.\<close>

definition get_base_attributes :: "env \<Rightarrow> Block \<Rightarrow> pydict" where
  "get_base_attributes E b =
     dict_update []
       [(KStr (BLOCK_NAME E), PStr (name b)),
        (KStr (BLOCK_TYPE E), PStr (block_type_value E (block_type b))),
        (KStr (FILE_PATH E), PStr (path b)),
        (KStr (CONFIG E), PDict (config b)),
        (KStr (LABEL E), PStr (block_type_str E (block_type b) @ '': '' @ name b)),
        (KStr (ID E), PStr (ident b)),
        (KStr (SOURCE E), PStr (source b))]"

text \<open>\<open>get_origin_attributes\<close> (lines 94-106): the loop over the attributes, writing
  into \<open>base_attributes\<close>.\<close>

fun get_origin_attributes :: "pydict \<Rightarrow> pydict \<Rightarrow> pyerror + pydict" where
  "get_origin_attributes [] base_attributes = Inr base_attributes"
| "get_origin_attributes ((attribute_key, v) # rest) base_attributes =
     (let attribute_value = unwrap_single v in
      case (if is_dict_or_list attribute_value then
              (case get_inner_attributes attribute_key attribute_value of
                 Inl e \<Rightarrow> Inl e
               | Inr inner_attributes \<Rightarrow> Inr (dict_update base_attributes inner_attributes))
            else Inr base_attributes) of
        Inl e \<Rightarrow> Inl e
      | Inr base1 \<Rightarrow>
          get_origin_attributes rest
            (if attribute_key = KStr ''self'' then dict_set base1 (KStr ''self_'') attribute_value
             else dict_set base1 attribute_key attribute_value))"

text \<open>Lines 67-84 of \<open>get_attribute_dict\<close>: the mapping that is handed to
  \<open>calculate_hash\<close>.\<close>

definition hashed_attributes :: "env \<Rightarrow> store \<Rightarrow> Block \<Rightarrow> pyerror + pydict" where
  "hashed_attributes E st b =
     (case get_origin_attributes (st (attributes b)) (get_base_attributes E b) of
        Inl e \<Rightarrow> Inl e
      | Inr base1 \<Rightarrow>
          (let base2 = (if changed_attributes b \<noteq> [] then
                          dict_set base1 (KStr ''changed_attributes'')
                            (PList (map PStr (sort (map fst (changed_attributes b)))))
                        else base1);
               base3 = (if breadcrumbs b \<noteq> [] then
                          dict_set base2 (KStr (RENDERING_BREADCRUMBS E))
                            (PDict (map (\<lambda>p. (KStr (fst p), snd p)) (sort_key fst (breadcrumbs b))))
                        else base2)
           in Inr (if encode b then map (\<lambda>p. (fst p, encode_graph_property_value E (snd p))) base3
                   else base3)))"

text \<open>\<open>get_attribute_dict\<close> (lines 61-92): the hash is stored, then a truthy
  \<open>changed_attributes\<close> entry is deleted.\<close>

definition get_attribute_dict :: "env \<Rightarrow> store \<Rightarrow> Block \<Rightarrow> pyerror + pydict" where
  "get_attribute_dict E st b =
     (case hashed_attributes E st b of
        Inl e \<Rightarrow> Inl e
      | Inr base_attributes \<Rightarrow>
          (let hashed = dict_set base_attributes (KStr (HASH E)) (calculate_hash E base_attributes)
           in Inr (if truthy (dict_get hashed (KStr ''changed_attributes''))
                   then dict_del hashed (KStr ''changed_attributes'') else hashed)))"

text \<open>\<open>get_hash\<close> (lines 108-110).\<close>

definition get_hash :: "env \<Rightarrow> store \<Rightarrow> Block \<Rightarrow> pyerror + pyval" where
  "get_hash E st b =
     (case get_attribute_dict E st b of
        Inl e \<Rightarrow> Inl e
      | Inr attributes_dict \<Rightarrow> Inr (dict_get attributes_dict (KStr (HASH E))))"

subsection \<open>ContentFingerprint\<close>

text \<open>Modelled from the spec: \<open>calculate_hash\<close> (checks/utils/utils.py is not among the
  sources). The spec describes a fixed-length digest of the mapping's entries that
  does not depend on insertion order, equivalent to hashing a canonical, key-sorted
  serialization. The serialization is the list of entries sorted by key; the digest
  function \<open>H\<close> of a serialization is a parameter.\<close>

definition canonical :: "pydict \<Rightarrow> pydict" where
  "canonical d = sort_key (\<lambda>p. str_of_key (fst p)) d"

definition fingerprint :: "(pydict \<Rightarrow> 'h) \<Rightarrow> pydict \<Rightarrow> 'h" where
  "fingerprint H d = H (canonical d)"

text \<open>A digest of fixed length: 256 bits.\<close>

type_synonym digest = "256 word"

text \<open>The keys of an exported mapping are strings.\<close>

definition string_keys :: "pydict \<Rightarrow> bool" where
  "string_keys d = (\<forall>p \<in> set d. \<exists>s. fst p = KStr s)"

section \<open>Reading values, for the statements\<close>

fun is_dict :: "pyval \<Rightarrow> bool" where
  "is_dict (PDict d) = True"
| "is_dict v = False"

text \<open>A value that is neither a mapping nor a list: None, a boolean, an integer or a
  string.\<close>

fun is_atom :: "pyval \<Rightarrow> bool" where
  "is_atom (PDict d) = False"
| "is_atom (PList xs) = False"
| "is_atom v = True"

text \<open>A mapping with \<open>v\<close> stored under the string key \<open>c\<close>.\<close>

fun set_field :: "string \<Rightarrow> pyval \<Rightarrow> pyval \<Rightarrow> pyval" where
  "set_field c v (PDict d) = PDict (dict_set d (KStr c) v)"
| "set_field c v x = x"

text \<open>The value the nested tree holds at a path: one subscript per component, a
  numeric component as an index.\<close>

fun get_path :: "string list \<Rightarrow> pyval \<Rightarrow> pyval option" where
  "get_path [] x = Some x"
| "get_path (c # cs) x =
     (case getitem x (key_of_part c) of Inl e \<Rightarrow> None | Inr child \<Rightarrow> get_path cs child)"

text \<open>\<open>v\<close> wrapped into one singleton mapping per component, the first component
  outermost.\<close>

fun wrap_path :: "string list \<Rightarrow> pyval \<Rightarrow> pyval" where
  "wrap_path [] v = v"
| "wrap_path (c # cs) v = PDict [(KStr c, wrap_path cs v)]"

text \<open>A path resolves in a value when every component but the last subscripts a
  mapping by a key it holds or a list by an index in range, and the last component
  meets a mapping, or a list with an index in range.\<close>

fun resolves :: "string list \<Rightarrow> pyval \<Rightarrow> bool" where
  "resolves [] x = False"
| "resolves [c] (PDict d) = True"
| "resolves [c] (PList xs) = (case key_of_part c of KInt i \<Rightarrow> i < length xs | KStr s \<Rightarrow> False)"
| "resolves [c] x = False"
| "resolves (c # r # rs) (PDict d) =
     (case map_of d (key_of_part c) of None \<Rightarrow> False | Some child \<Rightarrow> resolves (r # rs) child)"
| "resolves (c # r # rs) (PList xs) =
     (case key_of_part c of
        KInt i \<Rightarrow> i < length xs \<and> resolves (r # rs) (xs ! i)
      | KStr s \<Rightarrow> False)"
| "resolves (c # r # rs) x = False"

text \<open>What the loop over the elements of a list (lines 142-144) does with one
  element, the component being not numeric: it writes into a mapping, runs the loop
  again on a list, and ends with a TypeError at anything else. \<open>loop_raises\<close>: the
  call on the value ends with that exception; \<open>loop_writes\<close>: it writes into a
  mapping before it ends.\<close>

fun loop_raises :: "pyval \<Rightarrow> bool"
  and loop_raises_list :: "pyval list \<Rightarrow> bool"
where
  "loop_raises (PDict d) = False"
| "loop_raises (PList xs) = loop_raises_list xs"
| "loop_raises v = True"
| "loop_raises_list [] = False"
| "loop_raises_list (x # xs) = (loop_raises x \<or> loop_raises_list xs)"

fun loop_writes :: "pyval \<Rightarrow> bool"
  and loop_writes_list :: "pyval list \<Rightarrow> bool"
where
  "loop_writes (PDict d) = True"
| "loop_writes (PList xs) = loop_writes_list xs"
| "loop_writes v = False"
| "loop_writes_list [] = False"
| "loop_writes_list (x # xs) = (loop_writes x \<or> (\<not> loop_raises x \<and> loop_writes_list xs))"

text \<open>A mapping that holds a truthy value under the key: where lines 140-141
  write.\<close>

fun holds_truthy :: "pyval \<Rightarrow> string \<Rightarrow> bool" where
  "holds_truthy (PDict d) k = truthy (dict_get d (KStr k))"
| "holds_truthy x k = False"

text \<open>The traversal of a path writes nothing before its last step: no mapping on
  the way holds the remaining path as a key with a truthy value, and where a list
  is met with a component that is not numeric, the loop over its elements writes into
  no mapping. The predicate follows the subscripts of the traversal and holds
  wherever a subscript fails.\<close>

fun plain :: "string list \<Rightarrow> pyval \<Rightarrow> bool" where
  "plain [] x = True"
| "plain (c # rest) x =
     (case (x, key_of_part c) of
        (PList xs, KStr s) \<Rightarrow> \<not> loop_writes_list xs
      | _ \<Rightarrow>
          (case rest of
             [] \<Rightarrow> True
           | r # rs \<Rightarrow>
               \<not> holds_truthy x (join_dot (c # rest))
               \<and> (case getitem x (key_of_part c) of
                    Inl e \<Rightarrow> True
                  | Inr child \<Rightarrow> plain rest child)))"

subsection \<open>The reconstructed nested form\<close>

text \<open>
  What \<open>get_inner_attributes\<close> stores under the root key, written as a function of
  the value: at the root and at every element of a list and every value of a dict, a
  list of length one is replaced by its element, once; what it is replaced by is
  then rebuilt child by child.
\<close>

fun unwrapped :: "pyval \<Rightarrow> pyval"
  and rebuilt :: "pyval \<Rightarrow> pyval"
where
  "unwrapped (PList [x]) = rebuilt x"
| "unwrapped v = rebuilt v"
| "rebuilt (PList xs) = PList (map unwrapped xs)"
| "rebuilt (PDict d) = PDict (map (\<lambda>p. (fst p, unwrapped (snd p))) d)"
| "rebuilt v = v"

text \<open>The value with every list of length one replaced by its element, at every
  level: the form the spec's round-trip sentence describes.\<close>

fun unwrap_all :: "pyval \<Rightarrow> pyval" where
  "unwrap_all (PList [x]) = unwrap_all x"
| "unwrap_all (PList xs) = PList (map unwrap_all xs)"
| "unwrap_all (PDict d) = PDict (map (\<lambda>p. (fst p, unwrap_all (snd p))) d)"
| "unwrap_all v = v"

text \<open>A Python dict holds a key once: every dict of the value has distinct keys.\<close>

fun wf_val :: "pyval \<Rightarrow> bool" where
  "wf_val (PList xs) = list_all wf_val xs"
| "wf_val (PDict d) = (distinct (map fst d) \<and> list_all (\<lambda>p. wf_val (snd p)) d)"
| "wf_val v = True"

text \<open>No list of length one anywhere in the value.\<close>

fun singleton_free :: "pyval \<Rightarrow> bool" where
  "singleton_free (PList xs) = (length xs \<noteq> 1 \<and> list_all singleton_free xs)"
| "singleton_free (PDict d) = list_all (\<lambda>p. singleton_free (snd p)) d"
| "singleton_free v = True"

text \<open>Two notions for the proofs about \<open>get_inner_attributes\<close>: a key lies below
  \<open>k\<close> when it is \<open>k\<close>, a dot and more; a flat mapping is rooted at \<open>k\<close> when its
  keys are distinct and each of them is \<open>k\<close> or lies below \<open>k\<close>.\<close>

definition below :: "key \<Rightarrow> key \<Rightarrow> bool" where
  "below k k' = (\<exists>t. k' = KStr (str_of_key k @ ''.'' @ t))"

definition rooted :: "key \<Rightarrow> pydict \<Rightarrow> bool" where
  "rooted k d = (distinct (map fst d) \<and> (\<forall>k' \<in> fst ` set d. k' = k \<or> below k k'))"

section \<open>Example objects\<close>

text \<open>A block of a given kind and name whose attribute mapping is the object at
  address 0, with everything else empty; used where a statement is evaluated.\<close>

definition example_block :: "BlockType \<Rightarrow> string \<Rightarrow> Block" where
  "example_block t n =
     \<lparr> name = n, config = [], module_dependency = [], module_dependency_num = [],
       path = [], block_type = t, attributes = 0, ident = [], source = [],
       changed_attributes = [], breadcrumbs = [], module_connections = [],
       source_module = {}, encode = False \<rparr>"

text \<open>The store whose object at address 0 is \<open>d\<close> (every other object empty).\<close>

definition example_store :: "pydict \<Rightarrow> store" where
  "example_store d = (\<lambda>a. if a = 0 then d else [])"

text \<open>The membership operator of the scenario: path \<open>cipher\<close>, two TLS 1.3 suites.\<close>

definition example_within :: WithinAttributeSolver where
  "example_within =
     \<lparr> resource_types = [''aws_lb_listener''], solver_attribute = ''cipher'',
       solver_value = [PStr ''TLS_AES_128_GCM_SHA256'', PStr ''TLS_AES_256_GCM_SHA384''] \<rparr>"

text \<open>The attribute mapping of the broadcast scenario.\<close>

definition example_ingress :: pydict where
  "example_ingress =
     [(KStr ''ingress'', PList [PDict [(KStr ''port'', PInt 80)], PDict [(KStr ''port'', PInt 443)]])]"

text \<open>A mapping with a nested mapping of two entries under \<open>a.b\<close>.\<close>

definition example_nested :: pydict where
  "example_nested =
     [(KStr ''a'', PDict [(KStr ''b'', PDict [(KStr ''c'', PInt 1), (KStr ''d'', PInt 2)])])]"

text \<open>A mapping without any \<open>tags\<close> attribute.\<close>

definition example_untagged :: pydict where
  "example_untagged = [(KStr ''name'', PStr ''web'')]"

text \<open>A mapping with a list of two ports under \<open>rule.ports\<close>.\<close>

definition example_ports :: pydict where
  "example_ports = [(KStr ''rule'', PDict [(KStr ''ports'', PList [PInt 80, PInt 443])])]"

text \<open>A list of a mapping and a string under \<open>k\<close>.\<close>

definition example_mixed :: pydict where
  "example_mixed = [(KStr ''k'', PList [PDict [(KStr ''x'', PInt 1)], PStr ''s''])]"

text \<open>A mapping under \<open>a\<close> that holds the dotted key \<open>b.c.d\<close> beside an empty mapping
  \<open>b\<close>.\<close>

definition example_shadow :: pydict where
  "example_shadow = [(KStr ''a'', PDict [(KStr ''b.c.d'', PInt 1), (KStr ''b'', PDict [])])]"

text \<open>A value of depth four with a list of length one at the second level.\<close>

definition example_deep :: pyval where
  "example_deep =
     PDict [(KStr ''rule'',
             PList [PDict [(KStr ''ports'', PList [PInt 80, PInt 443]),
                           (KStr ''tags'', PDict [(KStr ''env'', PStr ''prod'')])]])]"

text \<open>An environment to evaluate in: the reserved key and the field names are
  arbitrary distinct strings, paths are left as they are, values are not encoded, and
  the stand-in for the hash is the number of entries.\<close>

definition example_env :: env where
  "example_env =
     \<lparr> RESOLVED_MODULE_ENTRY_NAME = ''__resolved__'',
       BLOCK_NAME = ''block_name_'', BLOCK_TYPE = ''block_type_'', FILE_PATH = ''file_path_'',
       CONFIG = ''config_'', LABEL = ''label_'', ID = ''id_'', SOURCE = ''source_'',
       RENDERING_BREADCRUMBS = ''rendering_breadcrumbs_'', HASH = ''hash'',
       block_type_value = (\<lambda>t. ''resource''),
       block_type_str = (\<lambda>t. ''BlockType.RESOURCE''),
       remove_module_dependency_in_path = (\<lambda>p. (p, [], [])),
       realpath = (\<lambda>p. p),
       calculate_hash = (\<lambda>d. PInt (int (length d))),
       encode_graph_property_value = (\<lambda>v. v) \<rparr>"

text \<open>A block with two changed attributes, recorded in the order of the updates.\<close>

definition example_changed :: Block where
  "example_changed =
     (example_block RESOURCE ''aws_security_group.sg'')
       \<lparr>changed_attributes := [(''ingress.port'', [''var.port'']), (''description'', [''var.text''])]\<rparr>"

text \<open>The example environment with the fingerprint as its hash, the digest function
  being the number of entries of the serialization.\<close>

definition example_env_fp :: env where
  "example_env_fp = example_env\<lparr>calculate_hash := fingerprint (\<lambda>d. PInt (int (length d)))\<rparr>"

section \<open>Splitting and joining keys\<close>

lemma split_dot_nonempty: "split_dot s \<noteq> []"
  by (induction s) (auto split: list.splits)

lemma split_dot_no_dot: "p \<in> set (split_dot s) \<Longrightarrow> CHR ''.'' \<notin> set p"
  by (induction s arbitrary: p) (auto split: list.splits if_splits)

lemma join_dot_Cons: "join_dot (x # xs) = (if xs = [] then x else x @ CHR ''.'' # join_dot xs)"
  by (cases xs) auto

lemma join_dot_split_dot: "join_dot (split_dot s) = s"
  by (induction s) (auto simp: join_dot_Cons split_dot_nonempty split: list.splits)

lemma split_dot_no_dot_id: "CHR ''.'' \<notin> set p \<Longrightarrow> split_dot p = [p]"
  by (induction p) auto

lemma split_dot_append_dot:
  "CHR ''.'' \<notin> set p \<Longrightarrow> split_dot (p @ CHR ''.'' # s) = p # split_dot s"
  by (induction p) auto

lemma split_dot_join_dot:
  "ps \<noteq> [] \<Longrightarrow> \<forall>p \<in> set ps. CHR ''.'' \<notin> set p \<Longrightarrow> split_dot (join_dot ps) = ps"
proof (induction ps rule: join_dot.induct)
  case 1 then show ?case by simp
next
  case (2 x) then show ?case by (simp add: split_dot_no_dot_id)
next
  case (3 x y ys)
  then show ?case by (simp add: split_dot_append_dot)
qed

lemma dot_in_join_dot:
  "\<forall>p \<in> set ps. CHR ''.'' \<notin> set p \<Longrightarrow> (CHR ''.'' \<in> set (join_dot ps)) = (2 \<le> length ps)"
  by (induction ps rule: join_dot.induct) auto

text \<open>
  The recursion of \<open>update_inner_attribute\<close> as the source writes it, on the key as a
  string: the component recursion of \<open>update_inner_parts\<close> computes the same.
\<close>

lemma update_inner_attribute_rec:
  "update_inner_attribute attribute_key nested v =
     (let split_key = split_dot attribute_key;
          curr_key = key_of_part (hd split_key);
          nested1 = write_if_present attribute_key nested v
      in case (nested, curr_key) of
           (PList xs, KStr s) \<Rightarrow>
             (case update_elements (hd split_key) xs v of
                (xs', Raised e, lg) \<Rightarrow> (PList xs', Raised e, lg)
              | (xs', Returned r, lg) \<Rightarrow> (PList xs', Returned None, lg))
         | _ \<Rightarrow>
             if length split_key = 1 then
               (case setitem nested1 curr_key v of
                  Inl e \<Rightarrow> (nested1, Raised e, [])
                | Inr nested2 \<Rightarrow> (nested2, Returned None, []))
             else
               (case getitem nested1 curr_key of
                  Inl e \<Rightarrow> except_handler attribute_key nested1 v e []
                | Inr child \<Rightarrow>
                    (case update_inner_attribute (join_dot (tl split_key)) child v of
                       (child', Raised e, lg) \<Rightarrow>
                         except_handler attribute_key (put_child nested1 curr_key child') v e lg
                     | (child', Returned x, lg) \<Rightarrow>
                         (put_child nested1 curr_key child', Returned None, lg))))"
proof -
  obtain c rest where sp: "split_dot attribute_key = c # rest"
    using split_dot_nonempty by (cases "split_dot attribute_key") auto
  have j: "join_dot (c # rest) = attribute_key"
    using join_dot_split_dot [of attribute_key] sp by simp
  have nd: "\<forall>p \<in> set rest. CHR ''.'' \<notin> set p"
    using split_dot_no_dot [of _ attribute_key] sp by auto
  have top: "update_inner_attribute attribute_key nested v = update_inner_parts c rest nested v"
    using sp by (simp add: update_inner_attribute_def)
  show ?thesis
  proof (cases rest)
    case Nil
    show ?thesis
      unfolding top
      apply (subst update_inner_parts.simps)
      using j sp Nil
      apply (cases nested; cases "key_of_part c"; simp add: Let_def del: join_dot.simps)
      done
  next
    case (Cons r rs)
    have "split_dot (join_dot rest) = rest"
      using nd Cons by (intro split_dot_join_dot) auto
    then have sub: "\<And>child. update_inner_parts r rs child v
                       = update_inner_attribute (join_dot (r # rs)) child v"
      using Cons by (simp add: update_inner_attribute_def)
    show ?thesis
    proof -
      have sp': "split_dot attribute_key = c # r # rs" and j': "join_dot (c # r # rs) = attribute_key"
        using sp j Cons by simp_all
      show ?thesis
        unfolding top Cons
        apply (subst update_inner_parts.simps)
        apply (unfold Let_def sp' j' list.sel list.case sub)
        apply (cases nested; cases "key_of_part c"; simp)
        done
    qed
  qed
qed

lemma update_elements_rec:
  "update_elements curr_part (inner # xs) v =
     (case update_inner_attribute curr_part inner v of
        (inner', Raised e, lg) \<Rightarrow> (inner' # xs, Raised e, lg)
      | (inner', Returned r, lg) \<Rightarrow>
          (case update_elements curr_part xs v of
             (xs', oc, lg') \<Rightarrow> (inner' # xs', oc, lg @ lg')))"
  if "CHR ''.'' \<notin> set curr_part"
  using that by (simp add: update_inner_attribute_def split_dot_no_dot_id)

section \<open>Facts about dicts\<close>

lemma map_of_dict_set: "map_of (dict_set d k v) k' = (if k' = k then Some v else map_of d k')"
  by (simp add: dict_set_def AList.update_conv')

lemma dict_get_dict_set: "dict_get (dict_set d k v) k' = (if k' = k then v else dict_get d k')"
  by (simp add: dict_get_def map_of_dict_set)

lemma dict_set_twice: "dict_set (dict_set d k w) k v = dict_set d k v"
  by (simp add: dict_set_def)

lemma dict_get_del: "dict_get (dict_del d k) k' = (if k' = k then PNone else dict_get d k')"
  by (simp add: dict_get_def dict_del_def AList.delete_conv')

lemma truthy_get_del:
  assumes "map_of d k = Some v" "\<not> truthy v"
  shows "truthy (dict_get (dict_del d k) k') = truthy (dict_get d k')"
  using assms by (simp add: dict_get_del) (simp add: dict_get_def)

section \<open>Cross-kind lookup\<close>

text \<open>
  Claim C10. \<open>find_attribute\<close> decides presence by the truthiness of the stored value:
  a key that is stored with a falsy value is never the result, and the lookup answers
  exactly as it does on the mapping without that key.
\<close>

theorem find_attribute_falsy_absent:
  assumes "map_of (st (attributes b)) (KStr k) = Some v" and "\<not> truthy v"
  shows "find_attribute st b attribute \<noteq> Some k \<and>
         find_attribute st b attribute =
           find_attribute (st(attributes b := dict_del (st (attributes b)) (KStr k))) b attribute"
proof -
  have g: "\<not> truthy (dict_get (st (attributes b)) (KStr k))"
    using assms by (simp add: dict_get_def)
  have t: "\<And>k'. truthy (dict_get (dict_del (st (attributes b)) (KStr k)) k') =
                 truthy (dict_get (st (attributes b)) k')"
    using assms by (rule truthy_get_del)
  have a: "find_attribute st b attribute \<noteq> Some k"
    using g by (auto simp: find_attribute_def Let_def split: if_splits)
  have c: "find_attribute st b attribute =
           find_attribute (st(attributes b := dict_del (st (attributes b)) (KStr k))) b attribute"
    by (simp add: find_attribute_def Let_def t)
  from a c show ?thesis by simp
qed

text \<open>A variable whose \<open>default\<close> is the empty string: the key is there, the lookup
  finds nothing, as on the empty mapping.\<close>

theorem find_attribute_falsy_absent_witness:
  "map_of (example_store [(KStr ''default'', PStr [])] (attributes (example_block VARIABLE ''region'')))
       (KStr ''default'') = Some (PStr [])
   \<and> \<not> truthy (PStr [])
   \<and> find_attribute (example_store [(KStr ''default'', PStr [])]) (example_block VARIABLE ''region'')
        [''default''] = None
   \<and> find_attribute ((example_store [(KStr ''default'', PStr [])])(0 := []))
        (example_block VARIABLE ''region'') [''default''] = None"
  using find_attribute_falsy_absent
    [of "example_store [(KStr ''default'', PStr [])]" "example_block VARIABLE ''region''"
        "''default''" "PStr []" "[''default'']"]
  by (simp add: example_store_def example_block_def dict_del_def find_attribute_def dict_get_def)

text \<open>
  Claim C7, as amended. With a truthy value stored: a variable vertex whose only
  attribute is \<open>default\<close> answers \<open>default\<close> to any candidate; an output vertex whose
  only attribute is \<open>value\<close> answers \<open>value\<close>; the resource vertex
  \<open>aws_vpc.example\<close> with the attribute \<open>cidr_block\<close> answers \<open>cidr_block\<close> to
  \<open>[aws_vpc.example, cidr_block]\<close>. The empty candidate list gives None. The lookup
  is a function of the store and the block that returns a value for every input: on
  an empty mapping it is None, and any key it returns is a candidate component,
  \<open>default\<close> or \<open>value\<close>, stored with a truthy value.
\<close>

theorem find_attribute_scenarios:
  "(block_type b = VARIABLE \<and> st (attributes b) = [(KStr ''default'', v)] \<and> truthy v
      \<longrightarrow> find_attribute st b [''anything''] = Some ''default'')
   \<and> (block_type b = OUTPUT \<and> st (attributes b) = [(KStr ''value'', v)] \<and> truthy v
      \<longrightarrow> find_attribute st b [''anything''] = Some ''value'')
   \<and> (block_type b = RESOURCE \<and> name b = ''aws_vpc.example''
        \<and> st (attributes b) = [(KStr ''cidr_block'', v)] \<and> truthy v
      \<longrightarrow> find_attribute st b [''aws_vpc.example'', ''cidr_block''] = Some ''cidr_block'')
   \<and> find_attribute st b [] = None
   \<and> (st (attributes b) = [] \<longrightarrow> find_attribute st b attribute = None)
   \<and> (find_attribute st b attribute = None
       \<or> (\<exists>k. find_attribute st b attribute = Some k
              \<and> k \<in> set attribute \<union> {''default'', ''value''}
              \<and> truthy (dict_get (st (attributes b)) (KStr k))))"
  by (auto simp: find_attribute_def Let_def dict_get_def nth_Cons' intro: nth_mem)

theorem find_attribute_scenarios_witness:
  "find_attribute (example_store [(KStr ''default'', PStr ''us-east-1'')])
       (example_block VARIABLE ''region'') [''anything''] = Some ''default''
   \<and> find_attribute (example_store [(KStr ''value'', PStr ''vpc-1'')])
       (example_block OUTPUT ''vpc_id'') [''anything''] = Some ''value''
   \<and> find_attribute (example_store [(KStr ''cidr_block'', PStr ''10.0.0.0/16'')])
       (example_block RESOURCE ''aws_vpc.example'') [''aws_vpc.example'', ''cidr_block'']
       = Some ''cidr_block''
   \<and> find_attribute (example_store []) (example_block MODULE ''m'') [''anything''] = None"
  using
    find_attribute_scenarios
      [where b = "example_block VARIABLE ''region''"
         and st = "example_store [(KStr ''default'', PStr ''us-east-1'')]"
         and v = "PStr ''us-east-1''" and attribute = "[]"]
    find_attribute_scenarios
      [where b = "example_block OUTPUT ''vpc_id''"
         and st = "example_store [(KStr ''value'', PStr ''vpc-1'')]"
         and v = "PStr ''vpc-1''" and attribute = "[]"]
    find_attribute_scenarios
      [where b = "example_block RESOURCE ''aws_vpc.example''"
         and st = "example_store [(KStr ''cidr_block'', PStr ''10.0.0.0/16'')]"
         and v = "PStr ''10.0.0.0/16''" and attribute = "[]"]
    find_attribute_scenarios
      [where b = "example_block MODULE ''m''" and st = "example_store []"
         and attribute = "[''anything'']"]
  by (simp add: example_store_def example_block_def)

text \<open>The claim as stated fails where the value is falsy: a variable whose only
  attribute is \<open>default = False\<close> does not answer \<open>default\<close>.\<close>

theorem find_attribute_counterexample:
  "block_type (example_block VARIABLE ''enabled'') = VARIABLE
   \<and> example_store [(KStr ''default'', PBool False)] (attributes (example_block VARIABLE ''enabled''))
       = [(KStr ''default'', PBool False)]
   \<and> find_attribute (example_store [(KStr ''default'', PBool False)])
       (example_block VARIABLE ''enabled'') [''anything''] \<noteq> Some ''default''"
  by (simp add: example_store_def example_block_def find_attribute_def dict_get_def)

section \<open>The membership operator\<close>

text \<open>
  Claim C8, as amended. The operator is true exactly when the value \<open>vertex.get\<close>
  returns for the attribute (None when the attribute is absent) equals an element of
  the comparison list; for an absent attribute it is false provided None is not an
  element of the comparison list.
\<close>

theorem within_membership:
  "get_operation self vertex attribute =
     (\<exists>e \<in> set (solver_value self). py_eq (dict_get vertex (KStr attribute)) e)
   \<and> (map_of vertex (KStr attribute) = None \<and> PNone \<notin> set (solver_value self)
        \<longrightarrow> \<not> get_operation self vertex attribute)"
  by (auto simp: get_operation_def py_in_def list_ex_iff dict_get_def)

theorem within_membership_witness:
  "get_operation example_within [(KStr ''cipher'', PStr ''TLS_AES_128_GCM_SHA256'')] ''cipher''
   \<and> \<not> get_operation example_within [(KStr ''cipher'', PStr ''TLS_RC4_MD5'')] ''cipher''
   \<and> map_of [(KStr ''protocol'', PStr ''HTTPS'')] (KStr ''cipher'') = None
   \<and> PNone \<notin> set (solver_value example_within)
   \<and> \<not> get_operation example_within [(KStr ''protocol'', PStr ''HTTPS'')] ''cipher''"
  using
    within_membership [of example_within "[(KStr ''cipher'', PStr ''TLS_AES_128_GCM_SHA256'')]" "''cipher''"]
    within_membership [of example_within "[(KStr ''cipher'', PStr ''TLS_RC4_MD5'')]" "''cipher''"]
    within_membership [of example_within "[(KStr ''protocol'', PStr ''HTTPS'')]" "''cipher''"]
  by (simp add: example_within_def dict_get_def)

text \<open>The claim as stated fails where None is an element of the comparison list: the
  attribute is absent and the operator is true.\<close>

theorem within_counterexample:
  "map_of [(KStr ''protocol'', PStr ''HTTPS'')] (KStr ''cipher'') = None
   \<and> get_operation \<lparr> resource_types = [], solver_attribute = ''cipher'',
         solver_value = [PNone, PStr ''TLS_AES_128_GCM_SHA256''] \<rparr>
       [(KStr ''protocol'', PStr ''HTTPS'')] ''cipher''"
  by (simp add: get_operation_def py_in_def dict_get_def)

section \<open>Deep-path mutation: broadcast over a list\<close>

lemma key_of_part_str: "\<not> isnumeric c \<Longrightarrow> key_of_part c = KStr c"
  by (simp add: key_of_part_def)

lemma update_dict_last:
  "\<not> isnumeric c \<Longrightarrow> update_inner_parts c [] (PDict d) v = (PDict (dict_set d (KStr c) v), Returned None, [])"
  by (subst update_inner_parts.simps) (simp add: key_of_part_str Let_def dict_set_twice)

lemma update_elements_dicts:
  "\<not> isnumeric c \<Longrightarrow> list_all is_dict xs \<Longrightarrow>
   update_elements c xs v = (map (set_field c v) xs, Returned None, [])"
proof (induction xs)
  case Nil then show ?case by simp
next
  case (Cons x xs)
  then obtain d where "x = PDict d" by (cases x) auto
  with Cons show ?case by (simp add: update_dict_last)
qed

lemma update_list_broadcast:
  "\<not> isnumeric c \<Longrightarrow> list_all is_dict xs \<Longrightarrow>
   update_inner_parts c rest (PList xs) v = (PList (map (set_field c v) xs), Returned None, [])"
  by (subst update_inner_parts.simps) (simp add: key_of_part_str Let_def update_elements_dicts)

lemma split_ingress_port: "split_dot ''ingress.port'' = [''ingress'', ''port'']"
  by simp

lemma not_numeric_ingress: "\<not> isnumeric ''ingress''" "\<not> isnumeric ''port''"
  by (simp_all add: isnumeric_def is_digit_def digits_def)

lemma ingress_inner:
  assumes "map_of attrs (KStr ''ingress'') = Some (PList xs)" "list_all is_dict xs"
  shows "\<exists>attrs'. update_inner_attribute ''ingress.port'' (PDict attrs) v = (PDict attrs', Returned None, [])
          \<and> map_of attrs' (KStr ''ingress'') = Some (PList (map (set_field ''port'' v) xs))"
  using assms
  apply (simp add: update_inner_attribute_def)
  apply (subst update_inner_parts.simps)
  apply (simp add: key_of_part_str not_numeric_ingress Let_def map_of_dict_set update_list_broadcast)
  done


text \<open>An element that is neither a mapping nor a list cannot be assigned into: the
  loop ends there, with the elements before it rewritten and the ones after it
  untouched. The components after the first never reach the elements.\<close>

lemma update_atom_last:
  "is_atom x \<Longrightarrow> update_inner_parts c [] x v = (x, Raised TypeError, [])"
  by (cases x; subst update_inner_parts.simps) (simp_all add: Let_def split: key.splits)

lemma update_elements_prefix:
  "\<not> isnumeric c \<Longrightarrow> list_all is_dict ys \<Longrightarrow> is_atom x \<Longrightarrow>
   update_elements c (ys @ x # zs) v = (map (set_field c v) ys @ x # zs, Raised TypeError, [])"
proof (induction ys)
  case Nil
  then show ?case by (simp add: update_atom_last)
next
  case (Cons y ys)
  then obtain d where "y = PDict d" by (cases y) auto
  with Cons show ?case by (simp add: update_dict_last)
qed

lemma update_list_drops_rest:
  "\<not> isnumeric c \<Longrightarrow>
   update_inner_parts c rest (PList xs) v = update_inner_parts c [] (PList xs) v"
  by (subst update_inner_parts.simps, subst (2) update_inner_parts.simps)
     (simp add: key_of_part_str Let_def)

lemma update_list_prefix:
  "\<not> isnumeric c \<Longrightarrow> list_all is_dict ys \<Longrightarrow> is_atom x \<Longrightarrow>
   update_inner_parts c rest (PList (ys @ x # zs)) v
     = (PList (map (set_field c v) ys @ x # zs), Raised TypeError, [])"
  by (subst update_inner_parts.simps) (simp add: key_of_part_str Let_def update_elements_prefix)

lemma split_dot_hd: "split_dot (hd (split_dot k)) = [hd (split_dot k)]"
proof -
  have "hd (split_dot k) \<in> set (split_dot k)"
    using split_dot_nonempty by simp
  then have "CHR ''.'' \<notin> set (hd (split_dot k))"
    by (rule split_dot_no_dot)
  then show ?thesis by (rule split_dot_no_dot_id)
qed


text \<open>
  Claim C5, as amended. On a vertex whose attribute \<open>ingress\<close> is the list of the two
  mappings \<open>{port: 80}\<close> and \<open>{port: 443}\<close>, \<open>update_attribute\<close> with the key
  \<open>ingress.port\<close>, the value 8080 and an empty breadcrumb list leaves \<open>port = 8080\<close>
  in both elements and records \<open>ingress.port\<close> in \<open>changed_attributes\<close>, with no
  exception and no warning. In general, where \<open>update_inner_attribute\<close> meets a list
  and the first component of the key is not numeric, the call is the call with that
  component alone (lines 142-144 pass \<open>curr_key\<close>, the components after it are not
  carried); the value is assigned under that component in every element when all
  elements are mappings; and when mappings are followed by an element that is neither
  a mapping nor a list, it is assigned in the mappings before that element only, and
  the call ends with a TypeError.
\<close>

theorem broadcast_update:
  "(map_of (st (attributes b)) (KStr ''ingress'')
       = Some (PList [PDict [(KStr ''port'', PInt 80)], PDict [(KStr ''port'', PInt 443)]])
    \<longrightarrow> (case update_attribute st b ''ingress.port'' (PInt 8080) origin [] of
           (st', b', crumbs, oc, lg) \<Rightarrow>
             map_of (st' (attributes b')) (KStr ''ingress'')
               = Some (PList [PDict [(KStr ''port'', PInt 8080)], PDict [(KStr ''port'', PInt 8080)]])
             \<and> map_of (changed_attributes b') ''ingress.port'' = Some [origin]
             \<and> oc = Returned None \<and> lg = []))
   \<and> (\<not> isnumeric (hd (split_dot attribute_key)) \<longrightarrow>
        update_inner_attribute attribute_key (PList xs) v
          = update_inner_attribute (hd (split_dot attribute_key)) (PList xs) v
      \<and> (list_all is_dict xs \<longrightarrow>
           update_inner_attribute attribute_key (PList xs) v
             = (PList (map (set_field (hd (split_dot attribute_key)) v) xs), Returned None, []))
      \<and> (\<forall>ys x zs. xs = ys @ x # zs \<and> list_all is_dict ys \<and> is_atom x \<longrightarrow>
           update_inner_attribute attribute_key (PList xs) v
             = (PList (map (set_field (hd (split_dot attribute_key)) v) ys @ x # zs),
                Raised TypeError, [])))"
proof (intro conjI impI allI)
  assume a: "map_of (st (attributes b)) (KStr ''ingress'')
       = Some (PList [PDict [(KStr ''port'', PInt 80)], PDict [(KStr ''port'', PInt 443)]])"
  from ingress_inner [OF a, of "PInt 8080"]
  obtain attrs' where u: "update_inner_attribute ''ingress.port'' (PDict (st (attributes b))) (PInt 8080)
        = (PDict attrs', Returned None, [])"
    and m: "map_of attrs' (KStr ''ingress'')
        = Some (PList [PDict [(KStr ''port'', PInt 8080)], PDict [(KStr ''port'', PInt 8080)]])"
    by (auto simp: dict_set_def)
  show "case update_attribute st b ''ingress.port'' (PInt 8080) origin [] of
           (st', b', crumbs, oc, lg) \<Rightarrow>
             map_of (st' (attributes b')) (KStr ''ingress'')
               = Some (PList [PDict [(KStr ''port'', PInt 8080)], PDict [(KStr ''port'', PInt 8080)]])
             \<and> map_of (changed_attributes b') ''ingress.port'' = Some [origin]
             \<and> oc = Returned None \<and> lg = []"
    using m
    by (simp add: update_attribute_def u Let_def join_trimmed_strings_def map_of_dict_set
          AList.update_conv' upt_rec)
next
  assume n: "\<not> isnumeric (hd (split_dot attribute_key))"
  show "update_inner_attribute attribute_key (PList xs) v
          = update_inner_attribute (hd (split_dot attribute_key)) (PList xs) v"
    using update_list_drops_rest [OF n, of "tl (split_dot attribute_key)" xs v]
    by (simp add: update_inner_attribute_def split_dot_hd Let_def)
next
  assume "\<not> isnumeric (hd (split_dot attribute_key))" and "list_all is_dict xs"
  then show "update_inner_attribute attribute_key (PList xs) v
           = (PList (map (set_field (hd (split_dot attribute_key)) v) xs), Returned None, [])"
    by (simp add: update_inner_attribute_def update_list_broadcast)
next
  fix ys x zs
  assume "\<not> isnumeric (hd (split_dot attribute_key))"
    and "xs = ys @ x # zs \<and> list_all is_dict ys \<and> is_atom x"
  then show "update_inner_attribute attribute_key (PList xs) v
             = (PList (map (set_field (hd (split_dot attribute_key)) v) ys @ x # zs),
                Raised TypeError, [])"
    by (simp add: update_inner_attribute_def update_list_prefix)
qed

lemma not_numeric_rule: "\<not> isnumeric ''rule''"
  by (simp add: isnumeric_def is_digit_def digits_def)

theorem broadcast_update_witness:
  "map_of (example_store example_ingress (attributes (example_block RESOURCE ''aws_security_group.sg'')))
       (KStr ''ingress'')
     = Some (PList [PDict [(KStr ''port'', PInt 80)], PDict [(KStr ''port'', PInt 443)]])
   \<and> (case update_attribute (example_store example_ingress)
             (example_block RESOURCE ''aws_security_group.sg'') ''ingress.port'' (PInt 8080) ''origin'' [] of
        (st', b', crumbs, oc, lg) \<Rightarrow>
          map_of (st' (attributes b')) (KStr ''ingress'')
            = Some (PList [PDict [(KStr ''port'', PInt 8080)], PDict [(KStr ''port'', PInt 8080)]])
          \<and> map_of (changed_attributes b') ''ingress.port'' = Some [''origin'']
          \<and> oc = Returned None \<and> lg = [])
   \<and> \<not> isnumeric (hd (split_dot ''port.from''))
   \<and> update_inner_attribute ''port.from'' (PList [PDict [(KStr ''port'', PInt 80)], PDict []]) (PInt 8080)
       = update_inner_attribute ''port'' (PList [PDict [(KStr ''port'', PInt 80)], PDict []]) (PInt 8080)
   \<and> list_all is_dict [PDict [(KStr ''port'', PInt 80)], PDict []]
   \<and> update_inner_attribute ''port.from'' (PList [PDict [(KStr ''port'', PInt 80)], PDict []]) (PInt 8080)
       = (PList [PDict [(KStr ''port'', PInt 8080)], PDict [(KStr ''port'', PInt 8080)]],
          Returned None, [])"
proof -
  have n: "\<not> isnumeric (hd (split_dot ''port.from''))"
    by (simp add: not_numeric_ingress)
  have l: "list_all is_dict [PDict [(KStr ''port'', PInt 80)], PDict []]" by simp
  have a: "map_of (example_store example_ingress (attributes (example_block RESOURCE ''aws_security_group.sg'')))
       (KStr ''ingress'')
     = Some (PList [PDict [(KStr ''port'', PInt 80)], PDict [(KStr ''port'', PInt 443)]])"
    by (simp add: example_store_def example_block_def example_ingress_def)
  note t = broadcast_update
      [where st = "example_store example_ingress"
         and b = "example_block RESOURCE ''aws_security_group.sg''"
         and origin = "''origin''" and attribute_key = "''port.from''"
         and xs = "[PDict [(KStr ''port'', PInt 80)], PDict []]" and v = "PInt 8080"]
  note t1 = t [THEN conjunct1, THEN mp, OF a]
  note t2 = t [THEN conjunct2, THEN mp, OF n]
  from t1 have s: "case update_attribute (example_store example_ingress)
             (example_block RESOURCE ''aws_security_group.sg'') ''ingress.port'' (PInt 8080) ''origin'' [] of
        (st', b', crumbs, oc, lg) \<Rightarrow>
          map_of (st' (attributes b')) (KStr ''ingress'')
            = Some (PList [PDict [(KStr ''port'', PInt 8080)], PDict [(KStr ''port'', PInt 8080)]])
          \<and> map_of (changed_attributes b') ''ingress.port'' = Some [''origin'']
          \<and> oc = Returned None \<and> lg = []" .
  from t2 [THEN conjunct1] have d: "update_inner_attribute ''port.from'' (PList [PDict [(KStr ''port'', PInt 80)], PDict []]) (PInt 8080)
       = update_inner_attribute (hd (split_dot ''port.from''))
           (PList [PDict [(KStr ''port'', PInt 80)], PDict []]) (PInt 8080)" .
  from t2 [THEN conjunct2, THEN conjunct1, THEN mp, OF l] have e: "update_inner_attribute ''port.from'' (PList [PDict [(KStr ''port'', PInt 80)], PDict []]) (PInt 8080)
       = (PList (map (set_field (hd (split_dot ''port.from'')) (PInt 8080))
                   [PDict [(KStr ''port'', PInt 80)], PDict []]), Returned None, [])" .
  have d': "update_inner_attribute ''port.from'' (PList [PDict [(KStr ''port'', PInt 80)], PDict []]) (PInt 8080)
       = update_inner_attribute ''port'' (PList [PDict [(KStr ''port'', PInt 80)], PDict []]) (PInt 8080)"
    using d by simp
  have e': "update_inner_attribute ''port.from'' (PList [PDict [(KStr ''port'', PInt 80)], PDict []]) (PInt 8080)
       = (PList [PDict [(KStr ''port'', PInt 8080)], PDict [(KStr ''port'', PInt 8080)]],
          Returned None, [])"
    using e by (simp add: dict_set_def)
  from a s n d' l e' show ?thesis by (intro conjI)
qed


text \<open>
  The claim as stated fails in two ways. With the key \<open>rule.port\<close> on a list of two
  mappings that hold \<open>rule = {port: ...}\<close>, each element ends with \<open>rule = 8080\<close>:
  the rewrite of \<open>rule.port\<close> is applied to no element. With the key \<open>port\<close> on
  the list \<open>[{port: 80}, 5, {port: 443}]\<close> the third element is not rewritten.
\<close>

theorem broadcast_update_counterexample:
  "\<not> isnumeric ''rule''
   \<and> update_inner_attribute ''rule.port''
        (PList [PDict [(KStr ''rule'', PDict [(KStr ''port'', PInt 80)])],
                PDict [(KStr ''rule'', PDict [(KStr ''port'', PInt 443)])]]) (PInt 8080)
       = (PList [PDict [(KStr ''rule'', PInt 8080)], PDict [(KStr ''rule'', PInt 8080)]],
          Returned None, [])
   \<and> get_path [''rule'', ''port''] (PDict [(KStr ''rule'', PInt 8080)]) = None
   \<and> \<not> isnumeric ''port''
   \<and> update_inner_attribute ''port''
        (PList [PDict [(KStr ''port'', PInt 80)], PInt 5, PDict [(KStr ''port'', PInt 443)]]) (PInt 8080)
       = (PList [PDict [(KStr ''port'', PInt 8080)], PInt 5, PDict [(KStr ''port'', PInt 443)]],
          Raised TypeError, [])"
  by (simp add: update_inner_attribute_def update_inner_parts.simps key_of_part_def
        not_numeric_rule not_numeric_ingress dict_get_def dict_set_def Let_def)

section \<open>Deep-path mutation: the flattened projection\<close>

text \<open>Prefixes of different lengths are different keys, and a prefix holds a dot
  exactly when it has two components or more.\<close>

lemma length_join_dot:
  "length (join_dot ps) = sum_list (map length ps) + (length ps - 1)"
  by (induction ps rule: join_dot.induct) auto

lemma sum_list_take_mono:
  fixes xs :: "nat list"
  shows "j \<le> j' \<Longrightarrow> sum_list (take j xs) \<le> sum_list (take j' xs)"
proof -
  assume "j \<le> j'"
  then have "take j' xs = take j xs @ take (j' - j) (drop j xs)"
    by (metis le_add_diff_inverse take_add)
  then show ?thesis by simp
qed

lemma join_dot_take_less:
  assumes "1 \<le> j" "j < j'" "j' \<le> length ps"
  shows "length (join_dot (take j ps)) < length (join_dot (take j' ps))"
proof -
  have "sum_list (map length (take j ps)) \<le> sum_list (map length (take j' ps))"
    using assms sum_list_take_mono [of j j' "map length ps"] by (simp add: take_map)
  moreover have "length (join_dot (take j ps)) = sum_list (map length (take j ps)) + (j - 1)"
    using assms by (simp add: length_join_dot)
  moreover have "length (join_dot (take j' ps)) = sum_list (map length (take j' ps)) + (j' - 1)"
    using assms by (simp add: length_join_dot)
  ultimately show ?thesis
    using assms by arith
qed

lemma join_dot_take_inj:
  assumes "1 \<le> j" "1 \<le> j'" "j \<le> length ps" "j' \<le> length ps" "j \<noteq> j'"
  shows "join_dot (take j ps) \<noteq> join_dot (take j' ps)"
proof (cases "j < j'")
  case True
  then show ?thesis using join_dot_take_less [of j j' ps] assms by fastforce
next
  case False
  then have "j' < j" using assms by simp
  then show ?thesis using join_dot_take_less [of j' j ps] assms by fastforce
qed

lemma dot_in_join_take:
  assumes "\<forall>p \<in> set ps. CHR ''.'' \<notin> set p" "j \<le> length ps"
  shows "(CHR ''.'' \<in> set (join_dot (take j ps))) = (2 \<le> j)"
proof -
  have "\<forall>p \<in> set (take j ps). CHR ''.'' \<notin> set p"
    using assms(1) by (meson in_set_takeD)
  from dot_in_join_dot [OF this] assms(2) show ?thesis by simp
qed

lemma sync_loop_spec:
  assumes nd: "\<forall>p \<in> set parts. CHR ''.'' \<notin> set p"
  shows "m \<le> length parts \<Longrightarrow>
     sync_loop parts crumbs [length parts - m..<length parts]
        (attrs, wrap_path (drop m parts) v, changed) = (attrs', val', changed') \<Longrightarrow>
     (\<forall>j. 2 \<le> j \<and> j \<le> m \<longrightarrow>
          map_of attrs' (KStr (join_dot (take j parts))) = Some (wrap_path (drop j parts) v)
        \<and> map_of changed' (join_dot (take j parts)) = Some crumbs)
   \<and> (\<forall>k. (\<forall>j. 2 \<le> j \<and> j \<le> m \<longrightarrow> k \<noteq> KStr (join_dot (take j parts)))
          \<longrightarrow> map_of attrs' k = map_of attrs k)
   \<and> (\<forall>k. (\<forall>j. 2 \<le> j \<and> j \<le> m \<longrightarrow> k \<noteq> join_dot (take j parts))
          \<longrightarrow> map_of changed' k = map_of changed k)"
proof (induction m arbitrary: attrs changed)
  case 0
  then show ?case by simp
next
  case (Suc m)
  let ?n = "length parts"
  let ?i = "?n - Suc m"
  have lt: "m < ?n" using Suc.prems(1) by simp
  have si: "Suc ?i = ?n - m" and ilt: "?i < ?n"
    using lt by arith+
  have idx: "[?i..<?n] = ?i # [?n - m..<?n]"
    using upt_conv_Cons [OF ilt] si by simp
  have key: "join_trimmed_strings parts ?i = join_dot (take (Suc m) parts)"
    using Suc.prems(1) by (simp add: join_trimmed_strings_def)
  have nth: "parts ! (?n - 1 - ?i) = parts ! m"
    using Suc.prems(1) by simp
  have dr: "parts ! m # drop (Suc m) parts = drop m parts"
    using lt by (simp add: Cons_nth_drop_Suc)
  show ?case
  proof (cases "2 \<le> Suc m")
    case True
    then have dot: "CHR ''.'' \<in> set (join_dot (take (Suc m) parts))"
      using dot_in_join_take [OF nd Suc.prems(1)] by simp
    let ?K = "join_dot (take (Suc m) parts)"
    let ?val = "wrap_path (drop (Suc m) parts) v"
    have step: "sync_loop parts crumbs [?n - m..<?n]
        (dict_set attrs (KStr ?K) ?val, wrap_path (drop m parts) v, AList.update ?K crumbs changed)
        = (attrs', val', changed')"
      using Suc.prems(2) dot
      apply (subst (asm) idx)
      apply (simp only: sync_loop.simps key nth Let_def if_True)
      apply (simp add: dr [symmetric])
      done
    have mle: "m \<le> ?n" using lt by simp
    note IH = Suc.IH [OF mle step]
    have neq: "\<And>j. 2 \<le> j \<Longrightarrow> j \<le> m \<Longrightarrow> join_dot (take j parts) \<noteq> ?K"
      using join_dot_take_inj [of _ "Suc m" parts] Suc.prems(1) by simp
    have "\<forall>j. 2 \<le> j \<and> j \<le> m \<longrightarrow> KStr ?K \<noteq> KStr (join_dot (take j parts))"
      using neq by fastforce
    then have "map_of attrs' (KStr ?K) = map_of (dict_set attrs (KStr ?K) ?val) (KStr ?K)"
      using IH by blast
    then have a1: "map_of attrs' (KStr ?K) = Some ?val"
      by (simp add: map_of_dict_set)
    have "\<forall>j. 2 \<le> j \<and> j \<le> m \<longrightarrow> ?K \<noteq> join_dot (take j parts)"
      using neq by fastforce
    then have "map_of changed' ?K = map_of (AList.update ?K crumbs changed) ?K"
      using IH by blast
    then have c1: "map_of changed' ?K = Some crumbs"
      by (simp add: AList.update_conv')
    show ?thesis
    proof (intro conjI allI impI)
      fix j assume j: "2 \<le> j \<and> j \<le> Suc m"
      show "map_of attrs' (KStr (join_dot (take j parts))) = Some (wrap_path (drop j parts) v)"
        using j a1 IH by (cases "j = Suc m") auto
      show "map_of changed' (join_dot (take j parts)) = Some crumbs"
        using j c1 IH by (cases "j = Suc m") auto
    next
      fix k assume k: "\<forall>j. 2 \<le> j \<and> j \<le> Suc m \<longrightarrow> k \<noteq> KStr (join_dot (take j parts))"
      then have "k \<noteq> KStr ?K" using True by auto
      moreover have "map_of attrs' k = map_of (dict_set attrs (KStr ?K) ?val) k"
        using IH k by auto
      ultimately show "map_of attrs' k = map_of attrs k"
        by (simp add: map_of_dict_set)
    next
      fix k assume k: "\<forall>j. 2 \<le> j \<and> j \<le> Suc m \<longrightarrow> k \<noteq> join_dot (take j parts)"
      then have "k \<noteq> ?K" using True by auto
      moreover have "map_of changed' k = map_of (AList.update ?K crumbs changed) k"
        using IH k by auto
      ultimately show "map_of changed' k = map_of changed k"
        by (simp add: AList.update_conv')
    qed
  next
    case False
    then have m0: "m = 0" by simp
    have nodot: "CHR ''.'' \<notin> set (join_dot (take (Suc m) parts))"
      using dot_in_join_take [OF nd Suc.prems(1)] False by simp
    have "(attrs', val', changed') = (attrs, wrap_path (drop (Suc m) parts) v, changed)"
      using Suc.prems(2) nodot
      apply (subst (asm) idx)
      apply (simp only: sync_loop.simps key nth Let_def if_False)
      apply (simp add: m0)
      done
    then show ?thesis using m0 by auto
  qed
qed

section \<open>Deep-path mutation: the nested rewrite\<close>

text \<open>On the attribute mapping itself (a dict) \<open>update_inner_attribute\<close> never ends
  with an exception: every exception below is caught by a handler that runs on a dict.\<close>

lemma except_handler_dict:
  "\<exists>d' r lg'. except_handler k (PDict d) v e lg = (PDict d', Returned r, lg')"
  by simp

lemma update_top_returns:
  "\<exists>d' r lg. update_inner_parts c rest (PDict d) v = (PDict d', Returned r, lg)"
proof -
  obtain d1 where w: "write_if_present (join_dot (c # rest)) (PDict d) v = PDict d1"
    by (cases "truthy (dict_get d (KStr (join_dot (c # rest))))") simp_all
  show ?thesis
  proof (cases rest)
    case Nil
    then show ?thesis
      using w by (subst update_inner_parts.simps) (simp add: Let_def)
  next
    case (Cons r rs)
    show ?thesis
    proof (cases "getitem (PDict d1) (key_of_part c)")
      case (Inl e)
      then show ?thesis
        using w Cons except_handler_dict [of "join_dot (c # rest)" d1 v e "[]"]
        by (subst update_inner_parts.simps) (auto simp add: Let_def simp del: except_handler.simps join_dot.simps)
    next
      case (Inr child)
      obtain child' oc lg where u: "update_inner_parts r rs child v = (child', oc, lg)"
        by (cases "update_inner_parts r rs child v") auto
      show ?thesis
      proof (cases oc)
        case (Returned x)
        then show ?thesis
          using w Cons Inr u
          by (subst update_inner_parts.simps) (auto simp add: Let_def simp del: join_dot.simps)
      next
        case (Raised e)
        then show ?thesis
          using w Cons Inr u
            except_handler_dict [of "join_dot (c # rest)" "dict_set d1 (key_of_part c) child'" v e lg]
          by (subst update_inner_parts.simps)
             (auto simp add: Let_def simp del: except_handler.simps join_dot.simps)
      qed
    qed
  qed
qed

lemma key_of_part_neq_joined: "key_of_part c \<noteq> KStr (join_dot (c # r # rs))"
  by (auto simp: key_of_part_def)

lemma update_resolves:
  "resolves (c # rest) x \<Longrightarrow>
   \<exists>x' lg. update_inner_parts c rest x v = (x', Returned None, lg)
          \<and> get_path (c # rest) x' = Some v"
proof (induction rest arbitrary: c x)
  case Nil
  show ?case
  proof (cases x)
    case (PDict d)
    then show ?thesis
      by (subst update_inner_parts.simps)
         (auto simp add: Let_def map_of_dict_set split: key.splits)
  next
    case (PList xs)
    with Nil obtain i where "key_of_part c = KInt i" "i < length xs"
      by (auto split: key.splits)
    with PList show ?thesis
      by (subst update_inner_parts.simps) (simp add: Let_def)
  qed (use Nil in auto)
next
  case (Cons r rs)
  show ?case
  proof (cases x)
    case (PDict d)
    with Cons.prems obtain child where ch: "map_of d (key_of_part c) = Some child"
      and rc: "resolves (r # rs) child"
      by (auto split: option.splits)
    from Cons.IH [OF rc] obtain child' lg where
      u: "update_inner_parts r rs child v = (child', Returned None, lg)"
      and g: "get_path (r # rs) child' = Some v" by blast
    obtain d1 where w: "write_if_present (join_dot (c # r # rs)) (PDict d) v = PDict d1"
      and m1: "map_of d1 (key_of_part c) = Some child"
      using ch key_of_part_neq_joined [of c r rs]
      by (cases "truthy (dict_get d (KStr (join_dot (c # r # rs))))")
         (simp_all add: map_of_dict_set del: join_dot.simps)
    show ?thesis
      using PDict w m1 u g
      by (subst update_inner_parts.simps)
         (auto simp add: Let_def map_of_dict_set simp del: join_dot.simps split: key.splits)
  next
    case (PList xs)
    with Cons.prems obtain i where k: "key_of_part c = KInt i" and i: "i < length xs"
      and rc: "resolves (r # rs) (xs ! i)"
      by (auto split: key.splits)
    from Cons.IH [OF rc] obtain child' lg where
      u: "update_inner_parts r rs (xs ! i) v = (child', Returned None, lg)"
      and g: "get_path (r # rs) child' = Some v" by blast
    show ?thesis
      using PList k i u g
      by (subst update_inner_parts.simps) (simp add: Let_def del: join_dot.simps)
  qed (use Cons.prems in auto)
qed

section \<open>Deep-path mutation: both views after an update\<close>

text \<open>
  Claim C1, as amended. For every key \<open>p\<close> with at least one dot and every value
  \<open>v\<close>, \<open>update_attribute(p, v, origin, [])\<close> returns without an exception, with the
  breadcrumb list \<open>[origin]\<close>, and afterwards: the attribute mapping holds \<open>v\<close>
  under the key \<open>p\<close>; under every prefix of \<open>p\<close> with two components or more it
  holds \<open>v\<close> wrapped into one singleton mapping per remaining component, and
  \<open>changed_attributes\<close> holds \<open>[origin]\<close> under that prefix; the first component
  alone is not written by the loop: \<open>changed_attributes\<close> is unchanged there and the
  attribute mapping holds there what \<open>update_inner_attribute\<close> left; and when the
  path resolves in the nested tree, the nested tree holds \<open>v\<close> at \<open>p\<close>.
\<close>

theorem update_attribute_sync:
  assumes dot: "CHR ''.'' \<in> set p"
  shows "case update_attribute st b p v origin [] of
      (st', b', crumbs, oc, lg) \<Rightarrow>
        oc = Returned None \<and> crumbs = [origin] \<and> attributes b' = attributes b
      \<and> map_of (st' (attributes b')) (KStr p) = Some v
      \<and> (\<forall>j. 2 \<le> j \<and> j \<le> length (split_dot p) \<longrightarrow>
            map_of (st' (attributes b')) (KStr (join_dot (take j (split_dot p))))
              = Some (wrap_path (drop j (split_dot p)) v)
          \<and> map_of (changed_attributes b') (join_dot (take j (split_dot p))) = Some [origin])
      \<and> map_of (changed_attributes b') (hd (split_dot p))
          = map_of (changed_attributes b) (hd (split_dot p))
      \<and> getitem (PDict (st' (attributes b'))) (key_of_part (hd (split_dot p)))
          = getitem (fst (update_inner_attribute p (PDict (st (attributes b))) v))
              (key_of_part (hd (split_dot p)))
      \<and> (resolves (split_dot p) (PDict (st (attributes b)))
          \<longrightarrow> get_path (split_dot p) (PDict (st' (attributes b'))) = Some v)"
proof -
  let ?parts = "split_dot p"
  let ?n = "length ?parts"
  let ?attrs = "st (attributes b)"
  obtain c rest where sp: "?parts = c # rest"
    using split_dot_nonempty by (cases ?parts) auto
  have nd: "\<forall>q \<in> set ?parts. CHR ''.'' \<notin> set q"
    using split_dot_no_dot by blast
  have jp: "join_dot ?parts = p" by (rule join_dot_split_dot)
  have n2: "2 \<le> ?n"
    using dot dot_in_join_dot [OF nd] jp by simp
  obtain d' r lg where u: "update_inner_attribute p (PDict ?attrs) v = (PDict d', Returned r, lg)"
    using update_top_returns [of c rest ?attrs v] sp by (auto simp: update_inner_attribute_def)
  obtain a'' val' ch' where sl:
    "sync_loop ?parts [origin] [0..<?n] (d', v, changed_attributes b) = (a'', val', ch')"
    by (cases "sync_loop ?parts [origin] [0..<?n] (d', v, changed_attributes b)") auto
  have res: "update_attribute st b p v origin []
      = (st(attributes b := a''), b\<lparr>changed_attributes := ch'\<rparr>, [origin], Returned None, lg)"
    using n2 by (simp add: update_attribute_def u sl Let_def)
  have sl': "sync_loop ?parts [origin] [?n - ?n..<?n]
       (d', wrap_path (drop ?n ?parts) v, changed_attributes b) = (a'', val', ch')"
    using sl by simp
  note spec = sync_loop_spec [OF nd le_refl sl']
  have written: "\<And>j. 2 \<le> j \<and> j \<le> ?n \<Longrightarrow>
      map_of a'' (KStr (join_dot (take j ?parts))) = Some (wrap_path (drop j ?parts) v)
      \<and> map_of ch' (join_dot (take j ?parts)) = Some [origin]"
    using spec by blast
  have whole: "map_of a'' (KStr p) = Some v"
    using written [of ?n] n2 jp by simp
  have hd1: "hd ?parts = join_dot (take 1 ?parts)"
    using sp by simp
  have "\<And>j. 2 \<le> j \<and> j \<le> ?n \<Longrightarrow> hd ?parts \<noteq> join_dot (take j ?parts)"
    unfolding hd1 using join_dot_take_inj [of 1 _ ?parts] n2 by simp
  then have top_changed: "map_of ch' (hd ?parts) = map_of (changed_attributes b) (hd ?parts)"
    using spec by blast
  have cnd: "CHR ''.'' \<notin> set c" using nd sp by simp
  have "\<And>j. 2 \<le> j \<and> j \<le> ?n \<Longrightarrow> key_of_part c \<noteq> KStr (join_dot (take j ?parts))"
    using dot_in_join_take [OF nd] cnd by (auto simp: key_of_part_def)
  then have top_attr: "map_of a'' (key_of_part c) = map_of d' (key_of_part c)"
    using spec by blast
  have gi: "getitem (PDict a'') (key_of_part c) = getitem (PDict d') (key_of_part c)"
    using top_attr by simp
  have nested: "resolves ?parts (PDict ?attrs) \<Longrightarrow> get_path ?parts (PDict a'') = Some v"
  proof -
    assume "resolves ?parts (PDict ?attrs)"
    then have "resolves (c # rest) (PDict ?attrs)" using sp by simp
    from update_resolves [OF this, of v] u sp
    have "get_path (c # rest) (PDict d') = Some v"
      by (auto simp: update_inner_attribute_def)
    then show ?thesis
      unfolding sp using gi by (simp del: getitem.simps)
  qed
  show ?thesis
    unfolding res
    using written whole top_changed gi nested u sp
    by (simp del: getitem.simps)
qed

text \<open>The update of \<open>a.b.c\<close> on a vertex whose attribute \<open>a\<close> is the mapping
  \<open>{b: {c: 1, d: 2}}\<close>, evaluated.\<close>

lemma split_abc: "split_dot ''a.b.c'' = [''a'', ''b'', ''c'']"
  by simp

lemma not_numeric_abc: "\<not> isnumeric ''a''" "\<not> isnumeric ''b''" "\<not> isnumeric ''c''"
  by (simp_all add: isnumeric_def is_digit_def digits_def)

lemma update_example_nested:
  "update_inner_attribute ''a.b.c'' (PDict example_nested) (PInt 5)
     = (PDict [(KStr ''a'', PDict [(KStr ''b'', PDict [(KStr ''c'', PInt 5), (KStr ''d'', PInt 2)])])],
        Returned None, [])"
  by (simp add: update_inner_attribute_def update_inner_parts.simps example_nested_def
        key_of_part_def not_numeric_abc dict_get_def dict_set_def)

lemma update_attribute_example_nested:
  "update_attribute (example_store example_nested) (example_block RESOURCE ''r'') ''a.b.c'' (PInt 5) ''origin'' []
   = ((example_store example_nested)(0 :=
        [(KStr ''a'', PDict [(KStr ''b'', PDict [(KStr ''c'', PInt 5), (KStr ''d'', PInt 2)])]),
         (KStr ''a.b.c'', PInt 5), (KStr ''a.b'', PDict [(KStr ''c'', PInt 5)])]),
      (example_block RESOURCE ''r'')\<lparr>changed_attributes := [(''a.b.c'', [''origin'']), (''a.b'', [''origin''])]\<rparr>,
      [''origin''], Returned None, [])"
  by (simp add: update_attribute_def example_store_def example_block_def update_example_nested
        upt_rec join_trimmed_strings_def dict_set_def Let_def)


theorem update_attribute_sync_witness:
  "CHR ''.'' \<in> set ''a.b.c''
   \<and> resolves (split_dot ''a.b.c'')
        (PDict (example_store example_nested (attributes (example_block RESOURCE ''r''))))
   \<and> (case update_attribute (example_store example_nested) (example_block RESOURCE ''r'')
             ''a.b.c'' (PInt 5) ''origin'' [] of
        (st', b', crumbs, oc, lg) \<Rightarrow>
          oc = Returned None \<and> crumbs = [''origin'']
        \<and> map_of (st' (attributes b')) (KStr ''a.b.c'') = Some (PInt 5)
        \<and> map_of (st' (attributes b')) (KStr ''a.b'') = Some (PDict [(KStr ''c'', PInt 5)])
        \<and> map_of (changed_attributes b') ''a.b.c'' = Some [''origin'']
        \<and> map_of (changed_attributes b') ''a.b'' = Some [''origin'']
        \<and> get_path [''a'', ''b'', ''c''] (PDict (st' (attributes b'))) = Some (PInt 5))"
  using update_attribute_sync
    [where p = "''a.b.c''" and st = "example_store example_nested"
       and b = "example_block RESOURCE ''r''" and v = "PInt 5" and origin = "''origin''"]
  unfolding update_attribute_example_nested
  by (simp add: example_block_def example_store_def update_example_nested)
     (simp add: example_nested_def key_of_part_def not_numeric_abc)

text \<open>
  The claim as stated fails on that update. The call succeeds and the nested tree
  holds 5 at \<open>a.b.c\<close>, but the first component \<open>a\<close> does not hold the singleton
  wrapping \<open>{b: {c: 5}}\<close> and is not recorded in \<open>changed_attributes\<close>, and the
  prefix \<open>a.b\<close> holds \<open>{c: 5}\<close>, which is not the subtree \<open>{c: 5, d: 2}\<close> of the
  nested tree.
\<close>

theorem update_attribute_sync_counterexample:
  "(case update_attribute (example_store example_nested) (example_block RESOURCE ''r'')
           ''a.b.c'' (PInt 5) ''origin'' [] of
      (st', b', crumbs, oc, lg) \<Rightarrow>
        oc = Returned None \<and> lg = []
      \<and> get_path [''a'', ''b'', ''c''] (PDict (st' (attributes b'))) = Some (PInt 5)
      \<and> map_of (st' (attributes b')) (KStr ''a'') \<noteq> Some (wrap_path [''b'', ''c''] (PInt 5))
      \<and> map_of (st' (attributes b')) (KStr ''a.b'') \<noteq> get_path [''a'', ''b''] (PDict (st' (attributes b')))
      \<and> map_of (changed_attributes b') ''a'' = None)"
  unfolding update_attribute_example_nested
  by (simp add: example_block_def key_of_part_def not_numeric_abc)

section \<open>Deep-path mutation: a path that breaks\<close>















text \<open>Five updates, evaluated: \<open>tags.env\<close> on a vertex that has no attribute
  \<open>tags\<close>, \<open>rule.ports.2\<close> where the list of ports has two elements, \<open>name.x\<close>
  where \<open>name\<close> is a string, \<open>k.x\<close> where \<open>k\<close> is a list of a mapping and a string,
  and \<open>a.b.c.d\<close> where the mapping under \<open>a\<close> holds the key \<open>b.c.d\<close> and an empty
  mapping \<open>b\<close>.\<close>

lemma not_numeric_parts:
  "\<not> isnumeric ''tags''" "\<not> isnumeric ''env''" "\<not> isnumeric ''rule''" "\<not> isnumeric ''ports''"
  "\<not> isnumeric ''name''" "\<not> isnumeric ''x''" "\<not> isnumeric ''k''" "\<not> isnumeric ''a''"
  "\<not> isnumeric ''b''" "\<not> isnumeric ''c''" "\<not> isnumeric ''d''"
  by (simp_all add: isnumeric_def is_digit_def digits_def)

lemma key_of_part_two: "key_of_part ''2'' = KInt 2"
  by (simp add: key_of_part_def isnumeric_def is_digit_def digits_def int_of_str_def digit_val_def)






lemma plain_examples:
  "plain (split_dot ''tags.env'') (PDict example_untagged)"
  "plain (split_dot ''rule.ports.2'') (PDict example_ports)"
  "plain (split_dot ''name.x'') (PDict example_untagged)"
  "\<not> plain (split_dot ''k.x'') (PDict example_mixed)"
  "\<not> plain (split_dot ''a.b.c.d'') (PDict example_shadow)"
  by (simp_all add: example_untagged_def example_ports_def example_mixed_def example_shadow_def
        key_of_part_str not_numeric_parts key_of_part_two dict_get_def)






section \<open>AttributeTree: the flattened mapping and its root entry\<close>

text \<open>
  The keys a recursive call produces lie below its root key, so they never hit the
  root entry of the caller; with this every subscript of \<open>get_inner_attributes\<close>
  finds what it reads, and the function returns a mapping for every well-formed
  value.
\<close>

lemma below_irrefl: "\<not> below k k"
proof (cases k)
  case (KStr s)
  then show ?thesis by (simp add: below_def)
next
  case (KInt n)
  then show ?thesis by (simp add: below_def)
qed

lemma below_inner_key: "below k (inner_key k j)"
  unfolding below_def inner_key_def by (rule exI [of _ "str_of_key j"]) simp

lemma below_trans_inner:
  assumes "below (inner_key k j) k'"
  shows "below k k'"
proof -
  from assms obtain t where "k' = KStr (str_of_key (inner_key k j) @ ''.'' @ t)"
    unfolding below_def by (elim exE)
  then have "k' = KStr (str_of_key k @ ''.'' @ (str_of_key j @ ''.'' @ t))"
    by (simp add: inner_key_def)
  then show ?thesis
    unfolding below_def by (rule exI)
qed

lemma rooted_inner:
  assumes "rooted (inner_key k j) d" "k' \<in> fst ` set d"
  shows "below k k'"
proof -
  from assms have "k' = inner_key k j \<or> below (inner_key k j) k'"
    by (auto simp: rooted_def)
  then show ?thesis
  proof
    assume "k' = inner_key k j"
    then show ?thesis by (simp add: below_inner_key)
  next
    assume "below (inner_key k j) k'"
    then show ?thesis by (rule below_trans_inner)
  qed
qed

lemma rooted_distinct: "rooted k d \<Longrightarrow> distinct (map fst d)"
  by (simp add: rooted_def)


lemma map_of_dict_update:
  "distinct (map fst e) \<Longrightarrow> map_of (dict_update d e) = map_of d ++ map_of e"
proof (induction e arbitrary: d)
  case Nil then show ?case by simp
next
  case (Cons p e)
  obtain k v where p: "p = (k, v)" by (cases p)
  then have "map_of e k = None"
    using Cons.prems by (simp add: map_of_eq_None_iff)
  then have eq: "map_of (dict_set d k v) ++ map_of e = map_of d ++ map_of (p # e)"
    unfolding p by (intro ext) (simp add: map_add_def map_of_dict_set split: option.splits)
  have "map_of (dict_update d (p # e)) = map_of (dict_set d k v) ++ map_of e"
    using Cons p by simp
  then show ?case using eq by (rule trans)
qed

lemma distinct_dict_set: "distinct (map fst d) \<Longrightarrow> distinct (map fst (dict_set d k v))"
  by (simp add: dict_set_def AList.distinct_update)

lemma distinct_dict_update: "distinct (map fst d) \<Longrightarrow> distinct (map fst (dict_update d e))"
proof (induction e arbitrary: d)
  case Nil then show ?case by simp
next
  case (Cons p e)
  obtain k v where p: "p = (k, v)" by (cases p)
  with Cons show ?case by (simp add: distinct_dict_set)
qed

lemma keys_dict_set: "fst ` set (dict_set d k v) = insert k (fst ` set d)"
  by (simp add: dict_set_def AList.dom_update)

lemma keys_dict_update: "fst ` set (dict_update d e) = fst ` set d \<union> fst ` set e"
proof (induction e arbitrary: d)
  case Nil then show ?case by simp
next
  case (Cons p e)
  obtain k v where p: "p = (k, v)" by (cases p)
  with Cons show ?case by (auto simp: keys_dict_set)
qed

lemma store_child_ok:
  assumes sub: "map_of sub (inner_key k j) = Some val" "rooted (inner_key k j) sub"
    and acc: "map_of acc k = Some cont" "rooted k acc"
    and set: "setitem cont j val = Inr cont'"
  shows "\<exists>acc'. store_child acc k j sub = Inr acc' \<and> map_of acc' k = Some cont' \<and> rooted k acc'"
proof -
  let ?a = "dict_update acc sub"
  have knot: "k \<notin> fst ` set sub"
  proof
    assume "k \<in> fst ` set sub"
    then have "below k k" by (rule rooted_inner [OF sub(2)])
    then show False by (simp add: below_irrefl)
  qed
  then have "map_of sub k = None"
    by (simp add: map_of_eq_None_iff)
  then have mk: "map_of ?a k = Some cont"
    using acc(1) rooted_distinct [OF sub(2)] by (simp add: map_of_dict_update map_add_def)
  have mi: "map_of ?a (inner_key k j) = Some val"
    using sub(1) rooted_distinct [OF sub(2)] by (simp add: map_of_dict_update)
  have st: "store_child acc k j sub = Inr (dict_set ?a k cont')"
    using mk mi set by (simp add: store_child_def Let_def)
  have "distinct (map fst (dict_set ?a k cont'))"
    using rooted_distinct [OF acc(2)] by (intro distinct_dict_set distinct_dict_update)
  moreover have "\<forall>k' \<in> fst ` set (dict_set ?a k cont'). k' = k \<or> below k k'"
    using acc(2) rooted_inner [OF sub(2)]
    by (auto simp: rooted_def keys_dict_set keys_dict_update)
  ultimately have "rooted k (dict_set ?a k cont')"
    by (simp add: rooted_def)
  then show ?thesis
    using st by (simp add: map_of_dict_set)
qed



lemma inner_list_ok:
  "map_of acc k = Some (PList ys) \<Longrightarrow> length ys = i + length xs \<Longrightarrow> rooted k acc \<Longrightarrow>
   \<forall>x \<in> set xs. \<forall>k'. \<exists>d. get_inner_attributes k' x = Inr d
        \<and> map_of d k' = Some (unwrapped x) \<and> rooted k' d \<Longrightarrow>
   \<exists>acc'. inner_list k xs i acc = Inr acc'
        \<and> map_of acc' k = Some (PList (take i ys @ map unwrapped xs)) \<and> rooted k acc'"
proof (induction xs arbitrary: i acc ys)
  case Nil
  then show ?case by simp
next
  case (Cons x xs)
  from Cons.prems(4) have "\<exists>d. get_inner_attributes (inner_key k (KInt i)) x = Inr d
      \<and> map_of d (inner_key k (KInt i)) = Some (unwrapped x) \<and> rooted (inner_key k (KInt i)) d"
    by simp
  then obtain sub where
    g: "get_inner_attributes (inner_key k (KInt i)) x = Inr sub"
    and m: "map_of sub (inner_key k (KInt i)) = Some (unwrapped x)"
    and r: "rooted (inner_key k (KInt i)) sub" by (elim exE conjE)
  have ilt: "i < length ys" using Cons.prems(2) by simp
  then have si: "setitem (PList ys) (KInt i) (unwrapped x) = Inr (PList (ys[i := unwrapped x]))"
    by simp
  from store_child_ok [OF m r Cons.prems(1) Cons.prems(3) si] obtain acc1 where
    s: "store_child acc k (KInt i) sub = Inr acc1"
    and m1: "map_of acc1 k = Some (PList (ys[i := unwrapped x]))"
    and r1: "rooted k acc1" by (elim exE conjE)
  have len: "length (ys[i := unwrapped x]) = Suc i + length xs"
    using Cons.prems(2) by simp
  have el': "\<forall>y \<in> set xs. \<forall>k'. \<exists>d. get_inner_attributes k' y = Inr d
        \<and> map_of d k' = Some (unwrapped y) \<and> rooted k' d"
    using Cons.prems(4) by simp
  from Cons.IH [OF m1 len r1 el'] obtain acc' where
    a: "inner_list k xs (Suc i) acc1 = Inr acc'"
    and b: "map_of acc' k = Some (PList (take (Suc i) (ys[i := unwrapped x]) @ map unwrapped xs))"
    and c: "rooted k acc'" by (elim exE conjE)
  have "take (Suc i) (ys[i := unwrapped x]) = take i ys @ [unwrapped x]"
    using ilt by (simp add: take_Suc_conv_app_nth)
  then have "map_of acc' k = Some (PList (take i ys @ map unwrapped (x # xs)))"
    using b by simp
  moreover have "inner_list k (x # xs) i acc = Inr acc'"
    using g s a by simp
  ultimately show ?case using c by (intro exI conjI)
qed

lemma dict_set_new: "k \<notin> fst ` set e \<Longrightarrow> dict_set e k v = e @ [(k, v)]"
  by (induction e) (auto simp: dict_set_def)

lemma inner_dict_ok:
  "map_of acc k = Some (PDict e) \<Longrightarrow> distinct (map fst d) \<Longrightarrow>
   fst ` set e \<inter> fst ` set d = {} \<Longrightarrow> rooted k acc \<Longrightarrow>
   \<forall>p \<in> set d. \<forall>k'. \<exists>f. get_inner_attributes k' (snd p) = Inr f
        \<and> map_of f k' = Some (unwrapped (snd p)) \<and> rooted k' f \<Longrightarrow>
   \<exists>acc'. inner_dict k d acc = Inr acc'
        \<and> map_of acc' k = Some (PDict (e @ map (\<lambda>p. (fst p, unwrapped (snd p))) d))
        \<and> rooted k acc'"
proof (induction d arbitrary: acc e)
  case Nil
  then show ?case by simp
next
  case (Cons p d)
  obtain j x where p: "p = (j, x)" by (cases p)
  from Cons.prems(5) p have "\<exists>f. get_inner_attributes (inner_key k j) x = Inr f
      \<and> map_of f (inner_key k j) = Some (unwrapped x) \<and> rooted (inner_key k j) f"
    by simp
  then obtain sub where
    g: "get_inner_attributes (inner_key k j) x = Inr sub"
    and m: "map_of sub (inner_key k j) = Some (unwrapped x)"
    and r: "rooted (inner_key k j) sub" by (elim exE conjE)
  have jn: "j \<notin> fst ` set e" using Cons.prems(3) p by auto
  have si: "setitem (PDict e) j (unwrapped x) = Inr (PDict (e @ [(j, unwrapped x)]))"
    using jn by (simp add: dict_set_new)
  from store_child_ok [OF m r Cons.prems(1) Cons.prems(4) si] obtain acc1 where
    s: "store_child acc k j sub = Inr acc1"
    and m1: "map_of acc1 k = Some (PDict (e @ [(j, unwrapped x)]))"
    and r1: "rooted k acc1" by (elim exE conjE)
  have dd: "distinct (map fst d)" using Cons.prems(2) by simp
  have dj: "fst ` set (e @ [(j, unwrapped x)]) \<inter> fst ` set d = {}"
    using Cons.prems(2,3) p by auto
  have el': "\<forall>q \<in> set d. \<forall>k'. \<exists>f. get_inner_attributes k' (snd q) = Inr f
        \<and> map_of f k' = Some (unwrapped (snd q)) \<and> rooted k' f"
    using Cons.prems(5) by simp
  from Cons.IH [OF m1 dd dj r1 el'] obtain acc' where
    a: "inner_dict k d acc1 = Inr acc'"
    and b: "map_of acc' k = Some (PDict ((e @ [(j, unwrapped x)]) @ map (\<lambda>p. (fst p, unwrapped (snd p))) d))"
    and c: "rooted k acc'" by (elim exE conjE)
  have "inner_dict k (p # d) acc = Inr acc'"
    unfolding p using g s a by simp
  moreover have "map_of acc' k = Some (PDict (e @ map (\<lambda>p. (fst p, unwrapped (snd p))) (p # d)))"
    unfolding p using b by simp
  ultimately show ?case using c by (intro exI conjI)
qed

lemma rooted_single: "rooted k [(k, v)]"
  by (simp add: rooted_def)

lemma flatten_root:
  "wf_val v \<longrightarrow> (\<forall>k. \<exists>d. get_inner_attributes k v = Inr d \<and> map_of d k = Some (unwrapped v) \<and> rooted k d)"
proof (rule unwrapped_rebuilt.induct(1)
    [where P = "\<lambda>v. wf_val v \<longrightarrow>
        (\<forall>k. \<exists>d. get_inner_attributes k v = Inr d \<and> map_of d k = Some (unwrapped v) \<and> rooted k d)"
       and Q = "\<lambda>v. wf_val v \<longrightarrow>
        (\<forall>k. \<exists>d. inner_body k v = Inr d \<and> map_of d k = Some (rebuilt v) \<and> rooted k d)"],
    goal_cases)
  case (9 xs)
  show ?case
  proof (intro impI allI)
    fix k :: key assume wf: "wf_val (PList xs)"
    have el: "\<forall>x \<in> set xs. \<forall>k'. \<exists>d. get_inner_attributes k' x = Inr d
        \<and> map_of d k' = Some (unwrapped x) \<and> rooted k' d"
      using 9 wf by (simp add: list_all_iff)
    have m0: "map_of [(k, PList (replicate (length xs) PNone))] k = Some (PList (replicate (length xs) PNone))"
      by simp
    have l0: "length (replicate (length xs) PNone) = 0 + length xs" by simp
    from inner_list_ok [OF m0 l0 rooted_single el] show
      "\<exists>d. inner_body k (PList xs) = Inr d \<and> map_of d k = Some (rebuilt (PList xs)) \<and> rooted k d"
      by simp
  qed
next
  case (10 d)
  show ?case
  proof (intro impI allI)
    fix k :: key assume wf: "wf_val (PDict d)"
    have el: "\<forall>p \<in> set d. \<forall>k'. \<exists>f. get_inner_attributes k' (snd p) = Inr f
        \<and> map_of f k' = Some (unwrapped (snd p)) \<and> rooted k' f"
      using 10 wf by (simp add: list_all_iff)
    have m0: "map_of [(k, PDict [])] k = Some (PDict [])" by simp
    have dd: "distinct (map fst d)" using wf by simp
    have dj: "fst ` set [] \<inter> fst ` set d = {}" by simp
    from inner_dict_ok [OF m0 dd dj rooted_single el] show
      "\<exists>f. inner_body k (PDict d) = Inr f \<and> map_of f k = Some (rebuilt (PDict d)) \<and> rooted k f"
      by simp
  qed
qed (simp_all add: rooted_single)

text \<open>Flattening the reconstructed form: the loops see the same recursive results.\<close>

lemma get_inner_no_singleton:
  "singleton_free w \<Longrightarrow> get_inner_attributes k w = inner_body k w"
  by (cases "(k, w)" rule: get_inner_attributes.cases) simp_all

lemma inner_list_cong:
  "\<forall>x \<in> set xs. \<forall>k'. get_inner_attributes k' (unwrapped x) = get_inner_attributes k' x \<Longrightarrow>
   inner_list k (map unwrapped xs) i acc = inner_list k xs i acc"
  by (induction xs arbitrary: i acc) (simp_all split: sum.splits)

lemma inner_dict_cong:
  "\<forall>p \<in> set d. \<forall>k'. get_inner_attributes k' (unwrapped (snd p)) = get_inner_attributes k' (snd p) \<Longrightarrow>
   inner_dict k (map (\<lambda>p. (fst p, unwrapped (snd p))) d) acc = inner_dict k d acc"
proof (induction d arbitrary: acc)
  case Nil then show ?case by simp
next
  case (Cons p d)
  obtain j x where p: "p = (j, x)" by (cases p)
  with Cons show ?case by (simp split: sum.splits)
qed

lemma flatten_idem:
  "singleton_free (unwrapped v) \<longrightarrow>
     (\<forall>k. get_inner_attributes k (unwrapped v) = get_inner_attributes k v)"
proof (rule unwrapped_rebuilt.induct(1)
    [where P = "\<lambda>v. singleton_free (unwrapped v) \<longrightarrow>
        (\<forall>k. get_inner_attributes k (unwrapped v) = get_inner_attributes k v)"
       and Q = "\<lambda>v. singleton_free (rebuilt v) \<longrightarrow>
        (\<forall>k. inner_body k (rebuilt v) = inner_body k v)"],
    goal_cases)
  case (9 xs)
  show ?case
  proof (intro impI allI)
    fix k :: key assume sf: "singleton_free (rebuilt (PList xs))"
    have "\<forall>x \<in> set xs. \<forall>k'. get_inner_attributes k' (unwrapped x) = get_inner_attributes k' x"
      using 9 sf by (simp add: list_all_iff)
    then show "inner_body k (rebuilt (PList xs)) = inner_body k (PList xs)"
      by (simp add: inner_list_cong)
  qed
next
  case (10 d)
  show ?case
  proof (intro impI allI)
    fix k :: key assume sf: "singleton_free (rebuilt (PDict d))"
    have "\<forall>p \<in> set d. \<forall>k'. get_inner_attributes k' (unwrapped (snd p)) = get_inner_attributes k' (snd p)"
      using 10 sf by (simp add: list_all_iff)
    then show "inner_body k (rebuilt (PDict d)) = inner_body k (PDict d)"
      by (simp add: inner_dict_cong)
  qed
qed (simp_all add: get_inner_no_singleton)

lemma unwrapped_fix:
  "singleton_free v \<longrightarrow> unwrapped v = v"
proof (rule unwrapped_rebuilt.induct(1)
    [where P = "\<lambda>v. singleton_free v \<longrightarrow> unwrapped v = v"
       and Q = "\<lambda>v. singleton_free v \<longrightarrow> rebuilt v = v"],
    goal_cases)
  case (9 xs)
  then show ?case by (simp add: list_all_iff map_idI)
next
  case (10 d)
  then show ?case by (simp add: list_all_iff map_idI)
qed simp_all


text \<open>
  Claim C4, as amended. For every value (any depth) whose dicts hold each key once,
  \<open>get_inner_attributes\<close> under a root key returns a flat mapping, and its entry at
  the root key is the value with a list of length one replaced by its element once
  at the root and once at every list element and dict value (so a list of length one
  that is itself the only element of a list of length one stays a list). A value
  without lists of length one comes back unchanged. Flattening the reconstructed form
  again gives the same flat mapping whenever the reconstructed form has no list of
  length one.
\<close>

theorem flatten_roundtrip:
  "(wf_val v \<longrightarrow> (\<exists>d. get_inner_attributes k v = Inr d \<and> map_of d k = Some (unwrapped v)))
   \<and> (singleton_free v \<longrightarrow> unwrapped v = v)
   \<and> (singleton_free (unwrapped v) \<longrightarrow>
        get_inner_attributes k (unwrapped v) = get_inner_attributes k v)"
  using flatten_root [of v] flatten_idem [of v] unwrapped_fix [of v] by blast


text \<open>A value of depth four, flattened.\<close>

lemma str_of_nat_small: "str_of_nat 0 = ''0''" "str_of_nat (Suc 0) = ''1''"
  by (simp_all add: str_of_nat.simps digit_char_def digits_def)

lemma flatten_example_deep:
  "get_inner_attributes (KStr ''r'') example_deep =
     Inr [(KStr ''r'', PDict [(KStr ''rule'',
             PDict [(KStr ''ports'', PList [PInt 80, PInt 443]),
                    (KStr ''tags'', PDict [(KStr ''env'', PStr ''prod'')])])]),
          (KStr ''r.rule'', PDict [(KStr ''ports'', PList [PInt 80, PInt 443]),
                    (KStr ''tags'', PDict [(KStr ''env'', PStr ''prod'')])]),
          (KStr ''r.rule.ports'', PList [PInt 80, PInt 443]),
          (KStr ''r.rule.ports.0'', PInt 80),
          (KStr ''r.rule.ports.1'', PInt 443),
          (KStr ''r.rule.tags'', PDict [(KStr ''env'', PStr ''prod'')]),
          (KStr ''r.rule.tags.env'', PStr ''prod'')]"
  by (simp add: example_deep_def store_child_def inner_key_def dict_set_def str_of_nat_small)

theorem flatten_roundtrip_witness:
  "wf_val example_deep
   \<and> singleton_free (unwrapped example_deep)
   \<and> unwrapped example_deep =
       PDict [(KStr ''rule'',
             PDict [(KStr ''ports'', PList [PInt 80, PInt 443]),
                    (KStr ''tags'', PDict [(KStr ''env'', PStr ''prod'')])])]
   \<and> (\<exists>d. get_inner_attributes (KStr ''r'') example_deep = Inr d
          \<and> map_of d (KStr ''r'') = Some (unwrapped example_deep))
   \<and> get_inner_attributes (KStr ''r'') (unwrapped example_deep)
       = get_inner_attributes (KStr ''r'') example_deep"
proof -
  have a: "wf_val example_deep" by (simp add: example_deep_def)
  have b: "unwrapped example_deep =
       PDict [(KStr ''rule'',
             PDict [(KStr ''ports'', PList [PInt 80, PInt 443]),
                    (KStr ''tags'', PDict [(KStr ''env'', PStr ''prod'')])])]"
    by (simp add: example_deep_def)
  have c: "singleton_free (unwrapped example_deep)" unfolding b by simp
  from flatten_roundtrip [of example_deep "KStr ''r''"] a b c show ?thesis by simp
qed


text \<open>
  The claim as stated fails on \<open>[[5]]\<close>: with every list of length one unwrapped the
  value would be 5, but the root entry is \<open>[5]\<close>; and flattening \<open>[5]\<close> again gives
  another flat mapping.
\<close>

theorem flatten_roundtrip_counterexample:
  "get_inner_attributes (KStr ''r'') (PList [PList [PInt 5]])
     = Inr [(KStr ''r'', PList [PInt 5]), (KStr ''r.0'', PInt 5)]
   \<and> unwrap_all (PList [PList [PInt 5]]) = PInt 5
   \<and> map_of [(KStr ''r'', PList [PInt 5]), (KStr ''r.0'', PInt 5)] (KStr ''r'')
       \<noteq> Some (unwrap_all (PList [PList [PInt 5]]))
   \<and> get_inner_attributes (KStr ''r'') (PList [PInt 5])
       \<noteq> get_inner_attributes (KStr ''r'') (PList [PList [PInt 5]])"
  by (simp add: store_child_def inner_key_def dict_set_def str_of_nat_small)

section \<open>Construction\<close>

lemma wf_unwrap_single: "wf_val v \<Longrightarrow> wf_val (unwrap_single v)"
  by (cases v rule: unwrap_single.cases) simp_all

lemma get_inner_total: "wf_val v \<Longrightarrow> \<exists>d. get_inner_attributes k v = Inr d"
  using flatten_root [of v] by blast











section \<open>Export\<close>

lemma get_origin_attributes_total:
  "\<forall>p \<in> set attrs. wf_val (snd p) \<Longrightarrow> \<exists>d. get_origin_attributes attrs base = Inr d"
proof (induction attrs arbitrary: base)
  case Nil then show ?case by simp
next
  case (Cons p attrs)
  obtain k v where p: "p = (k, v)" by (cases p)
  have "wf_val (unwrap_single v)" using Cons.prems p by (simp add: wf_unwrap_single)
  then obtain d where "get_inner_attributes k (unwrap_single v) = Inr d"
    using get_inner_total by blast
  then show ?case using Cons p by (simp add: Let_def)
qed

lemma map_of_map_values:
  "map_of (map (\<lambda>p. (fst p, f (snd p))) d) k = map_option f (map_of d k)"
  by (induction d) auto

lemma map_of_dict_del: "map_of (dict_del d k) k' = (if k' = k then None else map_of d k')"
  by (simp add: dict_del_def AList.delete_conv')


text \<open>
  Claim C9. When \<open>changed_attributes\<close> is not empty, the sorted list of its keys is
  stored under \<open>changed_attributes\<close> in the mapping that is handed to
  \<open>calculate_hash\<close> (encoded like every other value when the block encodes), the
  hash of that mapping is what the export holds under the hash key, and the export
  has no entry \<open>changed_attributes\<close>; every other entry of the export is the entry of
  the hashed mapping. The field names of \<open>CustomAttributes\<close> and the encoder are
  not in the sources: the hash key and the breadcrumbs key are taken to differ from
  \<open>changed_attributes\<close>, and the encoded key list to be truthy.
\<close>

theorem changed_attributes_hashed_then_removed:
  assumes ch: "changed_attributes b \<noteq> []"
    and h1: "HASH E \<noteq> ''changed_attributes''"
    and h2: "RENDERING_BREADCRUMBS E \<noteq> ''changed_attributes''"
    and h3: "encode b \<longrightarrow> truthy (encode_graph_property_value E
               (PList (map PStr (sort (map fst (changed_attributes b))))))"
    and wf: "wf_val (PDict (st (attributes b)))"
  shows "\<exists>m d. hashed_attributes E st b = Inr m \<and> get_attribute_dict E st b = Inr d
     \<and> map_of m (KStr ''changed_attributes'')
         = Some (if encode b
                 then encode_graph_property_value E (PList (map PStr (sort (map fst (changed_attributes b)))))
                 else PList (map PStr (sort (map fst (changed_attributes b)))))
     \<and> map_of d (KStr (HASH E)) = Some (calculate_hash E m)
     \<and> map_of d (KStr ''changed_attributes'') = None
     \<and> (\<forall>k. k \<noteq> KStr ''changed_attributes'' \<and> k \<noteq> KStr (HASH E) \<longrightarrow> map_of d k = map_of m k)"
proof -
  let ?ca = "KStr ''changed_attributes''"
  let ?keys = "PList (map PStr (sort (map fst (changed_attributes b))))"
  let ?enc = "encode_graph_property_value E"
  have "\<forall>p \<in> set (st (attributes b)). wf_val (snd p)"
    using wf by (simp add: list_all_iff)
  then obtain base1 where o: "get_origin_attributes (st (attributes b)) (get_base_attributes E b) = Inr base1"
    using get_origin_attributes_total by blast
  let ?base2 = "dict_set base1 ?ca ?keys"
  let ?base3 = "if breadcrumbs b \<noteq> [] then
                  dict_set ?base2 (KStr (RENDERING_BREADCRUMBS E))
                    (PDict (map (\<lambda>p. (KStr (fst p), snd p)) (sort_key fst (breadcrumbs b))))
                else ?base2"
  let ?m = "if encode b then map (\<lambda>p. (fst p, ?enc (snd p))) ?base3 else ?base3"
  have hm: "hashed_attributes E st b = Inr ?m"
    using o ch by (simp add: hashed_attributes_def Let_def)
  have b3: "map_of ?base3 ?ca = Some ?keys"
    using h2 by (simp add: map_of_dict_set)
  have mca: "map_of ?m ?ca = Some (if encode b then ?enc ?keys else ?keys)"
    using b3 by (simp add: map_of_map_values)
  have "length (sort (map fst (changed_attributes b))) = length (changed_attributes b)"
    by simp
  then have "sort (map fst (changed_attributes b)) \<noteq> []"
    using ch by (metis length_0_conv)
  then have tk: "truthy ?keys" by simp
  have tr: "truthy (if encode b then ?enc ?keys else ?keys)"
    using h3 tk by simp
  let ?hashed = "dict_set ?m (KStr (HASH E)) (calculate_hash E ?m)"
  have "map_of ?hashed ?ca = Some (if encode b then ?enc ?keys else ?keys)"
    using mca h1 by (simp add: map_of_dict_set)
  then have "truthy (dict_get ?hashed ?ca)"
    using tr by (simp add: dict_get_def)
  then have gd: "get_attribute_dict E st b = Inr (dict_del ?hashed ?ca)"
    using hm by (simp add: get_attribute_dict_def Let_def)
  have d1: "map_of (dict_del ?hashed ?ca) (KStr (HASH E)) = Some (calculate_hash E ?m)"
    using h1 by (simp add: map_of_dict_del map_of_dict_set)
  have d2: "map_of (dict_del ?hashed ?ca) ?ca = None"
    by (simp add: map_of_dict_del)
  have d3: "\<forall>k. k \<noteq> ?ca \<and> k \<noteq> KStr (HASH E) \<longrightarrow> map_of (dict_del ?hashed ?ca) k = map_of ?m k"
    by (simp add: map_of_dict_del map_of_dict_set)
  from hm gd mca d1 d2 d3 show ?thesis by blast
qed

theorem changed_attributes_hashed_then_removed_witness:
  "changed_attributes example_changed \<noteq> []
   \<and> HASH example_env \<noteq> ''changed_attributes''
   \<and> RENDERING_BREADCRUMBS example_env \<noteq> ''changed_attributes''
   \<and> \<not> encode example_changed
   \<and> wf_val (PDict (example_store example_ingress (attributes example_changed)))
   \<and> (\<exists>m d. hashed_attributes example_env (example_store example_ingress) example_changed = Inr m
          \<and> get_attribute_dict example_env (example_store example_ingress) example_changed = Inr d
          \<and> map_of m (KStr ''changed_attributes'')
               = Some (PList [PStr ''description'', PStr ''ingress.port''])
          \<and> map_of d (KStr ''hash'') = Some (calculate_hash example_env m)
          \<and> map_of d (KStr ''changed_attributes'') = None)"
proof -
  have a: "changed_attributes example_changed \<noteq> []"
    by (simp add: example_changed_def)
  have h1: "HASH example_env \<noteq> ''changed_attributes''"
    and h2: "RENDERING_BREADCRUMBS example_env \<noteq> ''changed_attributes''"
    by (simp_all add: example_env_def)
  have ne: "\<not> encode example_changed"
    by (simp add: example_changed_def example_block_def)
  then have h3: "encode example_changed \<longrightarrow> truthy (encode_graph_property_value example_env
               (PList (map PStr (sort (map fst (changed_attributes example_changed))))))"
    by simp
  have wf: "wf_val (PDict (example_store example_ingress (attributes example_changed)))"
    by (simp add: example_store_def example_ingress_def)
  have srt: "sort (map fst (changed_attributes example_changed)) = [''description'', ''ingress.port'']"
    unfolding example_changed_def by code_simp
  from changed_attributes_hashed_then_removed
      [where b = example_changed and E = example_env and st = "example_store example_ingress",
       OF a h1 h2 h3 wf]
  have "\<exists>m d. hashed_attributes example_env (example_store example_ingress) example_changed = Inr m
          \<and> get_attribute_dict example_env (example_store example_ingress) example_changed = Inr d
          \<and> map_of m (KStr ''changed_attributes'')
               = Some (PList [PStr ''description'', PStr ''ingress.port''])
          \<and> map_of d (KStr ''hash'') = Some (calculate_hash example_env m)
          \<and> map_of d (KStr ''changed_attributes'') = None"
    using ne srt by (auto simp: example_env_def)
  with a h1 h2 ne wf show ?thesis by (intro conjI)
qed

end
